theory Spec2Isabelle
  imports Complex_Main "HOL-Library.Log_Nat"
begin

section \<open>Python values and exceptions\<close>

text \<open>
  The program is a Python 3 script. Its numbers are Python \<^verbatim>\<open>int\<close>s (unbounded) and
  \<^verbatim>\<open>float\<close>s (IEEE 754 binary64): \<^verbatim>\<open>/\<close> is true division and always yields a float,
  \<^verbatim>\<open>round\<close> and \<^verbatim>\<open>int\<close> turn a float back into an int. A finite float is modelled by
  the rational number it denotes; the two zeros are not told apart, since the program
  only ever reads a float through \<^verbatim>\<open>round\<close> and \<^verbatim>\<open>int\<close>.
\<close>

datatype pyfloat = Fin rat | PInf | NInf | NaN

datatype pynum = PyInt int | PyFloat pyfloat

datatype error =
    OverflowError
  | ValueError
  | ZeroDivisionError
  | KeyError
  | SystemExit int

definition bindE :: "error + 'a \<Rightarrow> ('a \<Rightarrow> error + 'b) \<Rightarrow> error + 'b" where
  "bindE m f = (case m of Inl e \<Rightarrow> Inl e | Inr x \<Rightarrow> f x)"

subsection \<open>Rounding to binary64\<close>

text \<open>
  \<open>float_exponent q\<close> is the exponent of the unit in the last place of the binade of
  \<open>q\<close>: 53 significant bits, and never below \<open>-1074\<close> (the subnormal range).
  \<open>nearest_double q\<close> rounds \<open>q\<close> to the nearest multiple of that unit, ties to the even
  multiple. A result of magnitude \<open>2 ^ 1024\<close> or more is out of range.
\<close>

definition float_exponent :: "rat \<Rightarrow> int" where
  "float_exponent q = max (bitlen \<lfloor>\<bar>q\<bar> * 2 ^ 1074\<rfloor> - 53) 0 - 1074"

definition round_half_even :: "rat \<Rightarrow> int" where
  "round_half_even q =
     (let f = \<lfloor>q\<rfloor>; d = q - of_int f
      in if d < 1 / 2 then f
         else if 1 / 2 < d then f + 1
         else if even f then f else f + 1)"

definition nearest_double :: "rat \<Rightarrow> rat" where
  "nearest_double q =
     (let e = float_exponent q
      in of_int (round_half_even (q / 2 powi e)) * 2 powi e)"

definition out_of_range :: "rat \<Rightarrow> bool" where
  "out_of_range r = (2 ^ 1024 \<le> \<bar>r\<bar>)"

definition float_of_rat :: "rat \<Rightarrow> pyfloat" where
  "float_of_rat q =
     (let r = nearest_double q
      in if out_of_range r then (if 0 < r then PInf else NInf) else Fin r)"

definition py_trunc :: "rat \<Rightarrow> int" where
  "py_trunc q = (if 0 \<le> q then \<lfloor>q\<rfloor> else \<lceil>q\<rceil>)"

subsection \<open>Float arithmetic\<close>

fun float_neg :: "pyfloat \<Rightarrow> pyfloat" where
  "float_neg (Fin a) = Fin (- a)"
| "float_neg PInf = NInf"
| "float_neg NInf = PInf"
| "float_neg NaN = NaN"

fun float_add :: "pyfloat \<Rightarrow> pyfloat \<Rightarrow> pyfloat" where
  "float_add (Fin a) (Fin b) = float_of_rat (a + b)"
| "float_add NaN y = NaN"
| "float_add x NaN = NaN"
| "float_add PInf NInf = NaN"
| "float_add NInf PInf = NaN"
| "float_add PInf y = PInf"
| "float_add NInf y = NInf"
| "float_add (Fin a) y = y"

definition float_sub :: "pyfloat \<Rightarrow> pyfloat \<Rightarrow> pyfloat" where
  "float_sub x y = float_add x (float_neg y)"

text \<open>Division by a divisor that is not zero (Python raises on zero before dividing).\<close>

fun float_div :: "pyfloat \<Rightarrow> pyfloat \<Rightarrow> pyfloat" where
  "float_div (Fin a) (Fin b) = float_of_rat (a / b)"
| "float_div NaN y = NaN"
| "float_div x NaN = NaN"
| "float_div (Fin a) y = Fin 0"
| "float_div PInf (Fin b) = (if 0 < b then PInf else NInf)"
| "float_div NInf (Fin b) = (if 0 < b then NInf else PInf)"
| "float_div x y = NaN"

subsection \<open>The operators of the script\<close>

text \<open>
  An int operand of a mixed operation is converted to a float first; the conversion
  raises \<^verbatim>\<open>OverflowError\<close> when the int is too large. True division of two ints is
  correctly rounded from the exact quotient and raises when the quotient is too large.
\<close>

fun to_float :: "pynum \<Rightarrow> error + pyfloat" where
  "to_float (PyInt n) =
     (let r = nearest_double (of_int n)
      in if out_of_range r then Inl OverflowError else Inr (Fin r))"
| "to_float (PyFloat x) = Inr x"

fun py_add :: "pynum \<Rightarrow> pynum \<Rightarrow> error + pynum" where
  "py_add (PyInt m) (PyInt n) = Inr (PyInt (m + n))"
| "py_add a b =
     bindE (to_float a) (\<lambda>x. bindE (to_float b) (\<lambda>y. Inr (PyFloat (float_add x y))))"

fun py_sub :: "pynum \<Rightarrow> pynum \<Rightarrow> error + pynum" where
  "py_sub (PyInt m) (PyInt n) = Inr (PyInt (m - n))"
| "py_sub a b =
     bindE (to_float a) (\<lambda>x. bindE (to_float b) (\<lambda>y. Inr (PyFloat (float_sub x y))))"

fun py_truediv :: "pynum \<Rightarrow> pynum \<Rightarrow> error + pynum" where
  "py_truediv (PyInt m) (PyInt n) =
     (if n = 0 then Inl ZeroDivisionError
      else let r = nearest_double (of_int m / of_int n)
           in if out_of_range r then Inl OverflowError else Inr (PyFloat (Fin r)))"
| "py_truediv a b =
     bindE (to_float a) (\<lambda>x. bindE (to_float b) (\<lambda>y.
       if y = Fin 0 then Inl ZeroDivisionError else Inr (PyFloat (float_div x y))))"

text \<open>\<^verbatim>\<open>round(v)\<close> with one argument: an int is returned as it is, a float is rounded half to even.\<close>

fun py_round :: "pynum \<Rightarrow> error + int" where
  "py_round (PyInt n) = Inr n"
| "py_round (PyFloat (Fin q)) = Inr (round_half_even q)"
| "py_round (PyFloat NaN) = Inl ValueError"
| "py_round (PyFloat x) = Inl OverflowError"

text \<open>\<^verbatim>\<open>int(v)\<close>: a float is truncated towards zero.\<close>

fun py_int :: "pynum \<Rightarrow> error + int" where
  "py_int (PyInt n) = Inr n"
| "py_int (PyFloat (Fin q)) = Inr (py_trunc q)"
| "py_int (PyFloat NaN) = Inl ValueError"
| "py_int (PyFloat x) = Inl OverflowError"

section \<open>Text\<close>

text \<open>
  A Python \<^verbatim>\<open>str\<close> is modelled as a list of characters with code points below 256; the
  external tools print ASCII. The character classes are those of \<^verbatim>\<open>str.isspace\<close>,
  \<^verbatim>\<open>str.splitlines\<close> and \<^verbatim>\<open>int\<close> on that range.
\<close>

definition isspace :: "char \<Rightarrow> bool" where
  "isspace c = (of_char c \<in> {9, 10, 11, 12, 13, 28, 29, 30, 31, 32, 133, 160 :: nat})"

definition is_linebreak :: "char \<Rightarrow> bool" where
  "is_linebreak c = (of_char c \<in> {10, 11, 12, 13, 28, 29, 30, 133 :: nat})"

definition isdigit :: "char \<Rightarrow> bool" where
  "isdigit c = (48 \<le> (of_char c :: nat) \<and> (of_char c :: nat) \<le> 57)"

definition digit_value :: "char \<Rightarrow> int" where
  "digit_value c = int (of_char c) - 48"

text \<open>\<^verbatim>\<open>sub in s\<close> on strings.\<close>

fun py_in :: "string \<Rightarrow> string \<Rightarrow> bool" where
  "py_in sub [] = (sub = [])"
| "py_in sub (c # cs) = (take (length sub) (c # cs) = sub \<or> py_in sub cs)"

text \<open>
  \<^verbatim>\<open>s.splitlines()\<close>: the lines without their terminators; \<^verbatim>\<open>\r\n\<close> is one terminator,
  and a terminator at the very end opens no further line.
\<close>

fun splitlines_from :: "string \<Rightarrow> string \<Rightarrow> string list" where
  "splitlines_from [] cur = (if cur = [] then [] else [rev cur])"
| "splitlines_from (c # cs) cur =
     (if c = CHR 0x0D then
        (case cs of
           d # ds \<Rightarrow> if d = CHR 0x0A then rev cur # splitlines_from ds []
                     else rev cur # splitlines_from cs []
         | [] \<Rightarrow> rev cur # splitlines_from cs [])
      else if is_linebreak c then rev cur # splitlines_from cs []
      else splitlines_from cs (c # cur))"

definition splitlines :: "string \<Rightarrow> string list" where
  "splitlines s = splitlines_from s []"

text \<open>\<^verbatim>\<open>s.strip()\<close> and \<^verbatim>\<open>s.split()\<close> (runs of whitespace separate, no empty words).\<close>

definition strip :: "string \<Rightarrow> string" where
  "strip s = rev (dropWhile isspace (rev (dropWhile isspace s)))"

fun split_from :: "string \<Rightarrow> string \<Rightarrow> string list" where
  "split_from [] cur = (if cur = [] then [] else [rev cur])"
| "split_from (c # cs) cur =
     (if isspace c then (if cur = [] then split_from cs [] else rev cur # split_from cs [])
      else split_from cs (c # cur))"

definition split :: "string \<Rightarrow> string list" where
  "split s = split_from s []"

text \<open>\<^verbatim>\<open>s.split(sep)\<close> for a one-character separator: empty pieces are kept.\<close>

fun split_sep_from :: "char \<Rightarrow> string \<Rightarrow> string \<Rightarrow> string list" where
  "split_sep_from sep [] cur = [rev cur]"
| "split_sep_from sep (c # cs) cur =
     (if c = sep then rev cur # split_sep_from sep cs [] else split_sep_from sep cs (c # cur))"

definition split_sep :: "char \<Rightarrow> string \<Rightarrow> string list" where
  "split_sep sep s = split_sep_from sep s []"

text \<open>\<^verbatim>\<open>s.split(sep, 1)\<close>: at most one split, at the first separator.\<close>

definition split_sep1 :: "char \<Rightarrow> string \<Rightarrow> string list" where
  "split_sep1 sep s =
     (if sep \<in> set s then [takeWhile (\<lambda>c. c \<noteq> sep) s, tl (dropWhile (\<lambda>c. c \<noteq> sep) s)]
      else [s])"

text \<open>
  \<^verbatim>\<open>int(s)\<close> on a string, base ten: surrounding whitespace is ignored, one sign is
  allowed, and a single underscore may stand between two digits. The whitespace of
  \<^verbatim>\<open>int\<close> is narrower than that of \<^verbatim>\<open>str.strip\<close>: the separators \<^verbatim>\<open>\x1c\<close> to \<^verbatim>\<open>\x1f\<close> are
  not ignored. The limit that newer interpreters put on the number of digits (4300
  unless configured otherwise) is not part of the model, neither here nor in \<^verbatim>\<open>str\<close>.
\<close>

definition int_space :: "char \<Rightarrow> bool" where
  "int_space c = (of_char c \<in> {9, 10, 11, 12, 13, 32, 133, 160 :: nat})"

definition int_strip :: "string \<Rightarrow> string" where
  "int_strip s = rev (dropWhile int_space (rev (dropWhile int_space s)))"

fun int_digits :: "string \<Rightarrow> int \<Rightarrow> int option" where
  "int_digits [] acc = Some acc"
| "int_digits (c # cs) acc =
     (if isdigit c then int_digits cs (10 * acc + digit_value c)
      else if c = CHR ''_'' then
        (case cs of
           d # ds \<Rightarrow> if isdigit d then int_digits cs acc else None
         | [] \<Rightarrow> None)
      else None)"

definition int_unsigned :: "string \<Rightarrow> error + int" where
  "int_unsigned s =
     (case s of
        [] \<Rightarrow> Inl ValueError
      | c # cs \<Rightarrow>
          if isdigit c then (case int_digits s 0 of Some n \<Rightarrow> Inr n | None \<Rightarrow> Inl ValueError)
          else Inl ValueError)"

definition py_int_str :: "string \<Rightarrow> error + int" where
  "py_int_str s =
     (case int_strip s of
        [] \<Rightarrow> Inl ValueError
      | c # cs \<Rightarrow>
          if c = CHR ''-'' then bindE (int_unsigned cs) (\<lambda>n. Inr (- n))
          else if c = CHR ''+'' then int_unsigned cs
          else int_unsigned (c # cs))"

text \<open>\<^verbatim>\<open>str(n)\<close> of an int: decimal digits, a minus sign for a negative number.\<close>

definition digit_char :: "nat \<Rightarrow> char" where
  "digit_char d = char_of (48 + d)"

fun str_nat :: "nat \<Rightarrow> string" where
  "str_nat n = (if n < 10 then [digit_char n] else str_nat (n div 10) @ [digit_char (n mod 10)])"

declare str_nat.simps [simp del]

definition py_str :: "int \<Rightarrow> string" where
  "py_str n = (if n < 0 then CHR ''-'' # str_nat (nat (- n)) else str_nat (nat n))"

section \<open>The external tools and the state\<close>

text \<open>
  The script reads the active window from \<^verbatim>\<open>xdotool\<close> and the displays from
  \<^verbatim>\<open>xrandr\<close>, keeps one file per window id in its cache directory, and acts on the
  window by \<^verbatim>\<open>xdotool windowsize\<close> and \<^verbatim>\<open>xdotool windowmove\<close>. The answers of the
  tools are the environment of one run; \<open>None\<close> stands for a tool that exits with an
  error (\<^verbatim>\<open>CalledProcessError\<close>). The cache directory and the requests issued so far
  are the state. An uncaught exception ends the run: the model then returns the
  exception alone.
\<close>

text \<open>
  The dictionary \<^verbatim>\<open>get_window_position\<close> builds from the lines
  \<^verbatim>\<open>WINDOW= X= Y= WIDTH= HEIGHT= SCREEN=\<close> that \<^verbatim>\<open>xdotool getwindowgeometry --shell\<close>
  prints, each value an int.
\<close>

record window =
  WINDOW :: int
  X :: int
  Y :: int
  WIDTH :: int
  HEIGHT :: int
  SCREEN :: int

definition items :: "window \<Rightarrow> (string \<times> int) list" where
  "items win =
     [(''WINDOW'', WINDOW win), (''X'', X win), (''Y'', Y win),
      (''WIDTH'', WIDTH win), (''HEIGHT'', HEIGHT win), (''SCREEN'', SCREEN win)]"

record screen =
  width :: int
  height :: int

record env =
  xdotool :: "window option"
  xrandr :: "string option"

datatype request =
    Windowsize int int int
  | Windowmove int int int

record state =
  cache_dir :: "(int \<rightharpoonup> string) option"
  requests :: "request list"

definition run :: "request \<Rightarrow> state \<Rightarrow> state" where
  "run r s = s\<lparr>requests := requests s @ [r]\<rparr>"

section \<open>The script\<close>

definition get_window_position :: "env \<Rightarrow> error + window" where
  "get_window_position e =
     (case xdotool e of None \<Rightarrow> Inl (SystemExit 1) | Some win \<Rightarrow> Inr win)"

text \<open>
  The loop of \<^verbatim>\<open>get_screens\<close> over the lines: \<open>scan_screens\<close> takes the lines from index
  \<open>i\<close> on, so the head of the rest is \<^verbatim>\<open>lines[i+1]\<close>. \<^verbatim>\<open>w, h = map(int, ...)\<close> raises
  \<^verbatim>\<open>ValueError\<close> when a piece is no int and when there are not exactly two pieces.
\<close>

fun scan_screens ::
  "string list \<Rightarrow> screen option \<Rightarrow> screen list \<Rightarrow> error + (screen option \<times> screen list)" where
  "scan_screens [] primary others = Inr (primary, others)"
| "scan_screens (line # rest) primary others =
     (if py_in '' connected'' line then
        (let is_primary = py_in '' primary'' line
         in case rest of
              [] \<Rightarrow> scan_screens rest primary others
            | next_line # _ \<Rightarrow>
                (case split (strip next_line) of
                   [] \<Rightarrow> scan_screens rest primary others
                 | res_str # _ \<Rightarrow>
                     if CHR ''x'' \<in> set res_str then
                       (case split_sep (CHR ''x'') res_str of
                          [a, b] \<Rightarrow>
                            bindE (py_int_str a) (\<lambda>w. bindE (py_int_str b) (\<lambda>h.
                              let screen_data = \<lparr>width = w, height = h\<rparr>
                              in if is_primary then scan_screens rest (Some screen_data) others
                                 else scan_screens rest primary (others @ [screen_data])))
                        | _ \<Rightarrow> Inl ValueError)
                     else scan_screens rest primary others))
      else scan_screens rest primary others)"

definition get_screens :: "env \<Rightarrow> error + (screen option \<times> screen list)" where
  "get_screens e =
     (case xrandr e of
        None \<Rightarrow> Inl (SystemExit 1)
      | Some output \<Rightarrow> scan_screens (splitlines output) None [])"

subsection \<open>The geometry cache\<close>

definition pid_text :: "(string \<times> int) list \<Rightarrow> string" where
  "pid_text data = concat (map (\<lambda>(k, v). k @ ''='' @ py_str v @ [CHR 0x0A]) data)"

definition save_pid :: "int \<Rightarrow> (string \<times> int) list \<Rightarrow> state \<Rightarrow> state" where
  "save_pid window_id data s =
     (let dir = (case cache_dir s of None \<Rightarrow> Map.empty | Some files \<Rightarrow> files)
      in s\<lparr>cache_dir := Some (dir(window_id \<mapsto> pid_text data))\<rparr>)"

text \<open>
  Reading a text file line by line: \<^verbatim>\<open>\n\<close>, \<^verbatim>\<open>\r\<close> and \<^verbatim>\<open>\r\n\<close> end a line. The lines are
  taken without their terminator, which \<^verbatim>\<open>line.strip()\<close> would remove.
\<close>

fun file_lines_from :: "string \<Rightarrow> string \<Rightarrow> string list" where
  "file_lines_from [] cur = (if cur = [] then [] else [rev cur])"
| "file_lines_from (c # cs) cur =
     (if c = CHR 0x0D then
        (case cs of
           d # ds \<Rightarrow> if d = CHR 0x0A then rev cur # file_lines_from ds []
                     else rev cur # file_lines_from cs []
         | [] \<Rightarrow> rev cur # file_lines_from cs [])
      else if c = CHR 0x0A then rev cur # file_lines_from cs []
      else file_lines_from cs (c # cur))"

definition setitem :: "(string \<times> int) list \<Rightarrow> string \<Rightarrow> int \<Rightarrow> (string \<times> int) list" where
  "setitem data k v =
     (if k \<in> fst ` set data then map (\<lambda>(k', v'). if k' = k then (k', v) else (k', v')) data
      else data @ [(k, v)])"

definition getitem :: "(string \<times> int) list \<Rightarrow> string \<Rightarrow> error + int" where
  "getitem data k = (case map_of data k of None \<Rightarrow> Inl KeyError | Some v \<Rightarrow> Inr v)"

fun read_pid_lines :: "string list \<Rightarrow> (string \<times> int) list \<Rightarrow> error + (string \<times> int) list" where
  "read_pid_lines [] data = Inr data"
| "read_pid_lines (line # rest) data =
     (if CHR ''='' \<in> set line then
        (case split_sep1 (CHR ''='') (strip line) of
           [k, v] \<Rightarrow> bindE (py_int_str v) (\<lambda>n. read_pid_lines rest (setitem data k n))
         | _ \<Rightarrow> Inl ValueError)
      else read_pid_lines rest data)"

definition load_pid :: "int \<Rightarrow> state \<Rightarrow> error + (string \<times> int) list option" where
  "load_pid window_id s =
     (case cache_dir s of
        None \<Rightarrow> Inr None
      | Some files \<Rightarrow>
          (case files window_id of
             None \<Rightarrow> Inr None
           | Some text \<Rightarrow>
               bindE (read_pid_lines (file_lines_from text []) []) (\<lambda>data. Inr (Some data))))"

definition clear_cache :: "state \<Rightarrow> state" where
  "clear_cache s = s\<lparr>cache_dir := None\<rparr>"

subsection \<open>The animator\<close>

text \<open>
  One pass of the loop of \<^verbatim>\<open>move_window\<close>: the four running values are advanced, then
  rounded and sent. \<open>animate n\<close> is \<open>n\<close> passes.
\<close>

fun animate ::
  "nat \<Rightarrow> int \<Rightarrow> pynum \<Rightarrow> pynum \<Rightarrow> pynum \<Rightarrow> pynum \<Rightarrow>
   pynum \<Rightarrow> pynum \<Rightarrow> pynum \<Rightarrow> pynum \<Rightarrow> state \<Rightarrow> error + state" where
  "animate 0 window_id w_step h_step x_move_step y_move_step new_w new_h new_x new_y s = Inr s"
| "animate (Suc n) window_id w_step h_step x_move_step y_move_step new_w new_h new_x new_y s =
     bindE (py_add new_w w_step) (\<lambda>new_w.
     bindE (py_add new_h h_step) (\<lambda>new_h.
     bindE (py_sub new_x x_move_step) (\<lambda>new_x.
     bindE (py_sub new_y y_move_step) (\<lambda>new_y.
     bindE (py_round new_w) (\<lambda>rw.
     bindE (py_round new_h) (\<lambda>rh.
     bindE (py_round new_x) (\<lambda>rx.
     bindE (py_round new_y) (\<lambda>ry.
       animate n window_id w_step h_step x_move_step y_move_step new_w new_h new_x new_y
         (run (Windowmove window_id rx ry) (run (Windowsize window_id rw rh) s))))))))))"

definition steps :: nat where
  "steps = 25"

definition move_window ::
  "pynum \<Rightarrow> pynum \<Rightarrow> int \<Rightarrow> pynum \<Rightarrow> pynum \<Rightarrow> pynum \<Rightarrow> pynum \<Rightarrow> pynum \<Rightarrow> pynum \<Rightarrow>
   state \<Rightarrow> error + state" where
  "move_window target_w target_h window_id current_w current_h current_x current_y
     target_x target_y s =
     bindE (py_sub target_w current_w) (\<lambda>dw.
     bindE (py_truediv dw (PyInt (int steps))) (\<lambda>w_step.
     bindE (py_sub target_h current_h) (\<lambda>dh.
     bindE (py_truediv dh (PyInt (int steps))) (\<lambda>h_step.
     bindE (py_sub current_x target_x) (\<lambda>dx.
     bindE (py_truediv dx (PyInt (int steps))) (\<lambda>x_move_step.
     bindE (py_sub current_y target_y) (\<lambda>dy.
     bindE (py_truediv dy (PyInt (int steps))) (\<lambda>y_move_step.
     bindE (animate steps window_id w_step h_step x_move_step y_move_step
              current_w current_h current_x current_y s) (\<lambda>s.
     bindE (py_int target_w) (\<lambda>fw.
     bindE (py_int target_h) (\<lambda>fh.
     bindE (py_int target_x) (\<lambda>fx.
     bindE (py_int target_y) (\<lambda>fy.
       Inr (run (Windowmove window_id fx fy) (run (Windowsize window_id fw fh) s)))))))))))))))"

subsection \<open>Which display the window is on\<close>

definition get_primary_width :: "env \<Rightarrow> error + int" where
  "get_primary_width e =
     bindE (get_screens e) (\<lambda>(primary, others).
       case primary of Some p \<Rightarrow> Inr (width p) | None \<Rightarrow> Inr 1920)"

definition get_screen_for_window :: "env \<Rightarrow> int \<Rightarrow> error + (int \<times> int \<times> int)" where
  "get_screen_for_window e x_pos =
     bindE (get_screens e) (\<lambda>(primary, others).
       case primary of
         None \<Rightarrow> Inr (1920, 1080, 0)
       | Some p \<Rightarrow>
           (let primary_width = width p
            in if x_pos > primary_width - 1 then
                 (case others of
                    other # _ \<Rightarrow> Inr (width other, height other, primary_width)
                  | [] \<Rightarrow> Inr (primary_width, height p, 0))
               else Inr (primary_width, height p, 0)))"

subsection \<open>Actions\<close>

definition fullscreen :: "env \<Rightarrow> state \<Rightarrow> error + state" where
  "fullscreen e s =
     bindE (get_window_position e) (\<lambda>win.
       let s = save_pid (WINDOW win) (items win) s
       in bindE (get_screen_for_window e (X win)) (\<lambda>(screen_w, screen_h, base_x_offset).
            let x_offset = (if base_x_offset > 0 then base_x_offset + 5 else 5);
                y_offset = 5;
                target_w = screen_w - 10;
                target_h = screen_h - 10
            in move_window (PyInt target_w) (PyInt target_h) (WINDOW win)
                 (PyInt (WIDTH win)) (PyInt (HEIGHT win)) (PyInt (X win)) (PyInt (Y win))
                 (PyInt x_offset) (PyInt y_offset) s))"

definition unscreen :: "env \<Rightarrow> state \<Rightarrow> error + state" where
  "unscreen e s =
     bindE (get_window_position e) (\<lambda>win.
     bindE (get_screen_for_window e (X win)) (\<lambda>(screen_w, screen_h, base_x_offset).
       let x_offset = (if base_x_offset > 0 then base_x_offset else 5);
           y_offset = 5
       in bindE (load_pid (WINDOW win) s) (\<lambda>saved.
            case saved of
              None \<Rightarrow> Inr s
            | Some data \<Rightarrow>
                if data = [] then Inr s
                else
                  bindE (getitem data ''WIDTH'') (\<lambda>target_w.
                  bindE (getitem data ''HEIGHT'') (\<lambda>target_h.
                  bindE (getitem data ''X'') (\<lambda>target_x.
                  bindE (getitem data ''Y'') (\<lambda>target_y.
                    let start_w = WIDTH win - 10;
                        start_h = HEIGHT win - 10
                    in move_window (PyInt target_w) (PyInt target_h) (WINDOW win)
                         (PyInt start_w) (PyInt start_h) (PyInt x_offset) (PyInt y_offset)
                         (PyInt target_x) (PyInt target_y) s)))))))"

definition toggle_fullscreen :: "env \<Rightarrow> state \<Rightarrow> error + state" where
  "toggle_fullscreen e s =
     bindE (get_window_position e) (\<lambda>win.
     bindE (get_screen_for_window e (X win)) (\<lambda>(screen_w, screen_h, base_x_offset).
       if WIDTH win = screen_w - 10 then unscreen e s else fullscreen e s))"

text \<open>
  The target rectangle of \<^verbatim>\<open>direction\<close>, in the order \<^verbatim>\<open>move_window\<close> takes it:
  \<open>(target_w, target_h, target_x, target_y)\<close>. Both halves are computed before the code
  is looked at; a code that matches no branch keeps the defaults.
\<close>

definition direction_target ::
  "string \<Rightarrow> window \<Rightarrow> int \<Rightarrow> int \<Rightarrow> int \<Rightarrow> error + (pynum \<times> pynum \<times> pynum \<times> pynum)" where
  "direction_target direction_code win screen_w screen_h base_x_offset =
     bindE (py_truediv (PyInt screen_w) (PyInt 2)) (\<lambda>half_w.
     bindE (py_truediv (PyInt screen_h) (PyInt 2)) (\<lambda>half_h.
       if direction_code = ''N'' then
         Inr (PyInt screen_w, half_h, PyInt base_x_offset, PyInt 0)
       else if direction_code = ''S'' then
         Inr (PyInt screen_w, half_h, PyInt base_x_offset, half_h)
       else if direction_code = ''E'' then
         bindE (py_add (PyInt base_x_offset) half_w) (\<lambda>target_x.
           Inr (half_w, PyInt screen_h, target_x, PyInt 0))
       else if direction_code = ''W'' then
         Inr (half_w, PyInt screen_h, PyInt base_x_offset, PyInt 0)
       else if direction_code = ''NE'' then
         bindE (py_add (PyInt base_x_offset) half_w) (\<lambda>target_x.
           Inr (half_w, half_h, target_x, PyInt 0))
       else if direction_code = ''NW'' then
         Inr (half_w, half_h, PyInt base_x_offset, PyInt 0)
       else if direction_code = ''SE'' then
         bindE (py_add (PyInt base_x_offset) half_w) (\<lambda>target_x.
           Inr (half_w, half_h, target_x, half_h))
       else if direction_code = ''SW'' then
         Inr (half_w, half_h, PyInt base_x_offset, half_h)
       else if direction_code = ''C'' then
         bindE (py_truediv (PyInt (screen_w - WIDTH win)) (PyInt 2)) (\<lambda>cx.
         bindE (py_add cx (PyInt base_x_offset)) (\<lambda>target_x.
         bindE (py_truediv (PyInt (screen_h - HEIGHT win)) (PyInt 2)) (\<lambda>target_y.
           Inr (PyInt (WIDTH win), PyInt (HEIGHT win), target_x, target_y))))
       else Inr (PyInt (WIDTH win), PyInt (HEIGHT win), PyInt 0, PyInt 0)))"

definition direction :: "string \<Rightarrow> env \<Rightarrow> state \<Rightarrow> error + state" where
  "direction direction_code e s =
     bindE (get_window_position e) (\<lambda>win.
     bindE (get_screen_for_window e (X win)) (\<lambda>(screen_w, screen_h, base_x_offset).
     bindE (direction_target direction_code win screen_w screen_h base_x_offset)
       (\<lambda>(target_w, target_h, target_x, target_y).
          move_window target_w target_h (WINDOW win)
            (PyInt (WIDTH win)) (PyInt (HEIGHT win)) (PyInt (X win)) (PyInt (Y win))
            target_x target_y s)))"

definition toggle_display :: "env \<Rightarrow> state \<Rightarrow> error + state" where
  "toggle_display e s =
     bindE (get_window_position e) (\<lambda>win.
     bindE (get_screens e) (\<lambda>(primary, others).
       case primary of
         None \<Rightarrow> Inr s
       | Some p \<Rightarrow>
           (let primary_width = width p;
                shift = (if X win > primary_width - 1 then - primary_width else primary_width);
                target_x = X win + shift
            in move_window (PyInt (WIDTH win)) (PyInt (HEIGHT win)) (WINDOW win)
                 (PyInt (WIDTH win)) (PyInt (HEIGHT win)) (PyInt (X win)) (PyInt (Y win))
                 (PyInt target_x) (PyInt (Y win)) s)))"

text \<open>
  \<^verbatim>\<open>main\<close> on the one argument of the command line. The parser prints the help and exits
  with status 0 for \<^verbatim>\<open>-h\<close>, \<^verbatim>\<open>--help\<close> and the abbreviations of \<^verbatim>\<open>--help\<close>, and exits with
  status 2 for any other argument that is not one of the actions.
\<close>

definition main :: "string \<Rightarrow> env \<Rightarrow> state \<Rightarrow> error + state" where
  "main action e s =
     (if action \<in> set [''-h'', ''--help'', ''--hel'', ''--he'', ''--h'']
        then Inl (SystemExit 0)
      else if action \<in> set [''N'', ''S'', ''E'', ''W'', ''NE'', ''NW'', ''SE'', ''SW'', ''C'']
        then direction action e s
      else if action = ''F'' then fullscreen e s
      else if action = ''U'' then unscreen e s
      else if action = ''TF'' then toggle_fullscreen e s
      else if action = ''TD'' then toggle_display e s
      else if action = ''CC'' then Inr (clear_cache s)
      else Inl (SystemExit 2))"

section \<open>Notions used in the statements\<close>

text \<open>The two requests of one animation frame, and of the closing request.\<close>

definition frame_requests :: "int \<Rightarrow> int \<times> int \<times> int \<times> int \<Rightarrow> request list" where
  "frame_requests window_id f =
     (case f of (w, h, x, y) \<Rightarrow> [Windowsize window_id w h, Windowmove window_id x y])"

text \<open>A number that is an int or a finite float, of magnitude at most \<open>b\<close>.\<close>

fun magnitude_le :: "pynum \<Rightarrow> rat \<Rightarrow> bool" where
  "magnitude_le (PyInt n) b = (\<bar>of_int n\<bar> \<le> b)"
| "magnitude_le (PyFloat (Fin q)) b = (\<bar>q\<bar> \<le> b)"
| "magnitude_le (PyFloat x) b = False"

definition empty_state :: state where
  "empty_state = \<lparr>cache_dir = None, requests = []\<rparr>"

text \<open>
  A key that survives the cache file: it starts with a character that is no whitespace
  and holds neither \<^verbatim>\<open>=\<close> nor a line terminator.
\<close>

definition plain_key :: "string \<Rightarrow> bool" where
  "plain_key k =
     (k \<noteq> [] \<and> \<not> isspace (hd k) \<and> CHR ''='' \<notin> set k \<and> CHR 0x0A \<notin> set k \<and> CHR 0x0D \<notin> set k)"

text \<open>No file for the window id in the cache directory, or no cache directory.\<close>

definition no_record :: "int \<Rightarrow> state \<Rightarrow> bool" where
  "no_record window_id s =
     (case cache_dir s of None \<Rightarrow> True | Some files \<Rightarrow> files window_id = None)"

text \<open>The answer of \<^verbatim>\<open>xrandr\<close> for a lone primary display of 1920 by 1080.\<close>

definition default_display :: string where
  "default_display = ''default connected primary'' @ [CHR 0x0A] @ ''1920x1080''"

text \<open>An answer of \<^verbatim>\<open>xrandr\<close>: a primary display of 1920 by 1080, a second one of 1280 by 1024.\<close>

definition two_displays :: string where
  "two_displays =
     ''eDP-1 connected primary 1920x1080+0+0'' @ [CHR 0x0A]
     @ ''   1920x1080     60.00*+'' @ [CHR 0x0A]
     @ ''HDMI-1 connected 1280x1024+1920+0'' @ [CHR 0x0A]
     @ ''   1280x1024     60.02*+'' @ [CHR 0x0A]"

text \<open>
  A window of 800 by 600 at \<open>x = 2000\<close>, on the second of the two displays; the same
  window at \<open>x = 100\<close>, on the primary; and an answer of \<^verbatim>\<open>xrandr\<close> that marks no display
  as primary.
\<close>

definition example_window :: window where
  "example_window = \<lparr>WINDOW = 123, X = 2000, Y = 0, WIDTH = 800, HEIGHT = 600, SCREEN = 0\<rparr>"

definition example_env :: env where
  "example_env = \<lparr>xdotool = Some example_window, xrandr = Some two_displays\<rparr>"

definition primary_env :: env where
  "primary_env = \<lparr>xdotool = Some (example_window\<lparr>X := 100\<rparr>), xrandr = Some two_displays\<rparr>"

definition no_primary :: string where
  "no_primary = ''HDMI-1 connected 1280x1024+0+0'' @ [CHR 0x0A] @ ''   1280x1024     60.02*+''"

definition no_primary_env :: env where
  "no_primary_env = \<lparr>xdotool = Some (example_window\<lparr>X := 100\<rparr>), xrandr = Some no_primary\<rparr>"

text \<open>
  The first window after \<^verbatim>\<open>fullscreen\<close>, and a window whose \<open>y\<close> is beyond the range of a
  float.
\<close>

definition maximised_env :: env where
  "maximised_env =
     \<lparr>xdotool = Some (example_window\<lparr>X := 1925, Y := 5, WIDTH := 1270, HEIGHT := 1014\<rparr>),
      xrandr = Some two_displays\<rparr>"

definition far_window :: window where
  "far_window = example_window\<lparr>Y := 25 * 2 ^ 1024 + 5\<rparr>"

definition far_env :: env where
  "far_env = \<lparr>xdotool = Some far_window, xrandr = Some two_displays\<rparr>"

text \<open>The window at \<open>x = 100\<close> with a \<open>y\<close> that no float holds.\<close>

definition high_window :: window where
  "high_window = example_window\<lparr>X := 100, Y := 2 ^ 1024\<rparr>"

definition high_env :: env where
  "high_env = \<lparr>xdotool = Some high_window, xrandr = Some two_displays\<rparr>"

text \<open>An answer of \<^verbatim>\<open>xrandr\<close> whose first mode line names an interlaced mode.\<close>

definition interlaced :: string where
  "interlaced = ''HDMI-1 connected primary 1920x1080+0+0'' @ [CHR 0x0A]
     @ ''   1920x1080i    60.00*+'' @ [CHR 0x0A]"

section \<open>Basic facts\<close>

lemma bindE_Inl [simp]: "bindE (Inl e) f = Inl e"
  by (simp add: bindE_def)

lemma bindE_Inr [simp]: "bindE (Inr x) f = f x"
  by (simp add: bindE_def)

lemma bindE_eq_Inr: "bindE m f = Inr y \<longleftrightarrow> (\<exists>x. m = Inr x \<and> f x = Inr y)"
  by (cases m) simp_all

lemma requests_run [simp]: "requests (run r s) = requests s @ [r]"
  by (simp add: run_def)

lemma cache_dir_run [simp]: "cache_dir (run r s) = cache_dir s"
  by (simp add: run_def)

lemma run_run:
  "run b (run a s) = s\<lparr>requests := requests s @ [a, b]\<rparr>"
  by (simp add: run_def)

lemma animate_shape:
  "animate n wid ws hs xs ys nw nh nx ny s = Inr s' \<Longrightarrow>
   \<exists>frames. length frames = n \<and>
     s' = s\<lparr>requests := requests s @ concat (map (frame_requests wid) frames)\<rparr>"
proof (induction n arbitrary: nw nh nx ny s)
  case 0
  then show ?case by simp
next
  case (Suc n)
  from Suc.prems obtain nw' nh' nx' ny' rw rh rx ry where
    rest: "animate n wid ws hs xs ys nw' nh' nx' ny'
             (run (Windowmove wid rx ry) (run (Windowsize wid rw rh) s)) = Inr s'"
    by (auto simp: bindE_eq_Inr)
  from Suc.IH [OF rest] obtain frames where
    len: "length frames = n" and
    s': "s' = (run (Windowmove wid rx ry) (run (Windowsize wid rw rh) s))
           \<lparr>requests := requests (run (Windowmove wid rx ry) (run (Windowsize wid rw rh) s))
              @ concat (map (frame_requests wid) frames)\<rparr>"
    by blast
  have "length ((rw, rh, rx, ry) # frames) = Suc n"
    using len by simp
  moreover have
    "s' = s\<lparr>requests := requests s @ concat (map (frame_requests wid) ((rw, rh, rx, ry) # frames))\<rparr>"
    using s' by (simp add: run_def frame_requests_def)
  ultimately show ?case by blast
qed

lemma move_window_shape:
  assumes "move_window tw th wid cw ch cx cy tx ty s = Inr s'"
  shows "\<exists>frames fw fh fx fy. length frames = 25 \<and>
     py_int tw = Inr fw \<and> py_int th = Inr fh \<and> py_int tx = Inr fx \<and> py_int ty = Inr fy \<and>
     s' = s\<lparr>requests := requests s @ concat (map (frame_requests wid) frames)
            @ [Windowsize wid fw fh, Windowmove wid fx fy]\<rparr>"
proof -
  from assms obtain ws hs xs ys s1 fw fh fx fy where
    anim: "animate steps wid ws hs xs ys cw ch cx cy s = Inr s1" and
    fin: "py_int tw = Inr fw" "py_int th = Inr fh" "py_int tx = Inr fx" "py_int ty = Inr fy" and
    s': "s' = run (Windowmove wid fx fy) (run (Windowsize wid fw fh) s1)"
    unfolding move_window_def by (auto simp: bindE_eq_Inr)
  from animate_shape [OF anim] obtain frames where
    len: "length frames = steps" and
    s1: "s1 = s\<lparr>requests := requests s @ concat (map (frame_requests wid) frames)\<rparr>"
    by blast
  have "s' = s\<lparr>requests := requests s @ concat (map (frame_requests wid) frames)
            @ [Windowsize wid fw fh, Windowmove wid fx fy]\<rparr>"
    unfolding s' s1 by (simp add: run_def)
  with len fin show ?thesis
    unfolding steps_def by blast
qed

lemma move_window_issues:
  "move_window tw th wid cw ch cx cy tx ty s \<noteq> Inr s"
proof
  assume "move_window tw th wid cw ch cx cy tx ty s = Inr s"
  from move_window_shape [OF this] obtain rs where
    "s = s\<lparr>requests := requests s @ rs\<rparr>" "rs \<noteq> []"
    by fastforce
  then have "requests s = requests (s\<lparr>requests := requests s @ rs\<rparr>)"
    by simp
  then have "requests s = requests s @ rs"
    by simp
  with \<open>rs \<noteq> []\<close> show False by simp
qed


section \<open>Rounding\<close>

lemma round_half_even_of_int [simp]: "round_half_even (of_int n) = n"
  by (simp add: round_half_even_def)

lemma round_half_even_0 [simp]: "round_half_even 0 = 0"
  by (simp add: round_half_even_def)

lemma round_half_even_le: "x \<le> of_int N \<Longrightarrow> round_half_even x \<le> N"
proof -
  assume a: "x \<le> of_int N"
  have f: "\<lfloor>x\<rfloor> \<le> N" using a by (simp add: floor_le_iff) 
  show ?thesis
  proof (cases "x = of_int \<lfloor>x\<rfloor>")
    case True
    then have "round_half_even x = \<lfloor>x\<rfloor>" by (metis round_half_even_of_int)
    with f show ?thesis by simp
  next
    case False
    have "of_int \<lfloor>x\<rfloor> \<le> x" by (rule of_int_floor_le)
    with False have "of_int \<lfloor>x\<rfloor> < x" by (metis order_less_le)
    with a have "(of_int \<lfloor>x\<rfloor> :: rat) < of_int N" by linarith
    then have "\<lfloor>x\<rfloor> < N" by (simp only: of_int_less_iff)
    then show ?thesis by (simp add: round_half_even_def Let_def)
  qed
qed

lemma round_half_even_ge: "of_int N \<le> x \<Longrightarrow> N \<le> round_half_even x"
proof -
  assume a: "of_int N \<le> x"
  then have "N \<le> \<lfloor>x\<rfloor>" by (simp add: le_floor_iff)
  then show ?thesis by (simp add: round_half_even_def Let_def)
qed

lemma float_exponent_ge: "- 1074 \<le> float_exponent q"
  by (simp add: float_exponent_def)

lemma float_exponent_le:
  assumes "\<bar>q\<bar> < 2 powi i" "- 1021 \<le> i"
  shows "float_exponent q \<le> i - 53"
proof -
  have "\<bar>q\<bar> * 2 ^ 1074 < 2 powi i * 2 powi 1074"
    using assms(1) by simp
  also have "\<dots> = 2 powi (i + 1074)"
    by (simp add: power_int_add)
  also have "\<dots> = 2 ^ nat (i + 1074)"
    using assms(2) by (simp add: power_int_def)
  finally have "\<bar>q\<bar> * 2 ^ 1074 < of_int (2 ^ nat (i + 1074))"
    by simp
  then have "\<lfloor>\<bar>q\<bar> * 2 ^ 1074\<rfloor> < 2 ^ nat (i + 1074)"
    by (simp only: floor_less_iff)
  then have "bitlen \<lfloor>\<bar>q\<bar> * 2 ^ 1074\<rfloor> \<le> i + 1074"
    using assms(2) by (simp add: bitlen_le_iff_power)
  then show ?thesis
    using assms(2) by (simp add: float_exponent_def)
qed

lemma nearest_double_bound:
  assumes "\<bar>q\<bar> \<le> 2 ^ k"
  shows "\<bar>nearest_double q\<bar> \<le> 2 ^ k"
proof -
  define e where "e = float_exponent q"
  have "(2::rat) ^ k < 2 ^ k * 2" by simp
  with assms have "\<bar>q\<bar> < 2 ^ k * 2" by (rule le_less_trans)
  then have "\<bar>q\<bar> < 2 powi (int k + 1)"
    by (simp add: power_int_add)
  then have "e \<le> int k + 1 - 53"
    unfolding e_def by (rule float_exponent_le) simp
  then have ek: "e \<le> int k" by simp
  define N :: int where "N = 2 ^ nat (int k - e)"
  have u: "(0::rat) < 2 powi e" by simp
  have Nu: "(of_int N :: rat) * 2 powi e = 2 ^ k"
  proof -
    have "(of_int N :: rat) = 2 powi (int k - e)"
      using ek by (simp add: N_def power_int_def)
    then show ?thesis by (simp add: power_int_diff)
  qed
  have "q \<le> of_int N * 2 powi e" "- (of_int N * 2 powi e) \<le> q"
    using assms Nu by auto
  then have "q / 2 powi e \<le> of_int N" "of_int (- N) \<le> q / 2 powi e"
    using u by (simp_all add: pos_divide_le_eq pos_le_divide_eq)
  then have "round_half_even (q / 2 powi e) \<le> N" "- N \<le> round_half_even (q / 2 powi e)"
    by (auto intro: round_half_even_le round_half_even_ge)
  then have "\<bar>round_half_even (q / 2 powi e)\<bar> \<le> N" by simp
  then have "\<bar>of_int (round_half_even (q / 2 powi e)) :: rat\<bar> \<le> of_int N"
    by (metis of_int_abs of_int_le_iff)
  then have "\<bar>of_int (round_half_even (q / 2 powi e)) * 2 powi e :: rat\<bar> \<le> of_int N * 2 powi e"
    using u by (simp add: abs_mult)
  then show ?thesis
    unfolding nearest_double_def Let_def e_def [symmetric] Nu .
qed

lemma nearest_double_exact:
  assumes "q = of_int m * 2 powi i" "\<bar>m\<bar> < 2 ^ 53" "- 1074 \<le> i"
  shows "nearest_double q = q"
proof (cases "m = 0")
  case True
  then show ?thesis using assms(1) by (simp add: nearest_double_def)
next
  case False
  define e where "e = float_exponent q"
  have "\<bar>q\<bar> = of_int \<bar>m\<bar> * 2 powi i"
    using assms(1) by (simp add: abs_mult)
  also have "\<dots> < 2 ^ 53 * 2 powi i"
    using assms(2) by (simp add: of_int_less_numeral_power_cancel_iff [symmetric] del: of_int_less_numeral_power_cancel_iff)
  also have "\<dots> = 2 powi (i + 53)"
    by (simp add: power_int_add)
  finally have "\<bar>q\<bar> < 2 powi (i + 53)" .
  then have "e \<le> (i + 53) - 53"
    unfolding e_def using assms(3) by (intro float_exponent_le) simp_all
  then have ei: "e \<le> i" by simp
  have "q / 2 powi e = of_int m * 2 powi (i - e)"
    using assms(1) by (simp add: power_int_diff)
  also have "\<dots> = of_int (m * 2 ^ nat (i - e))"
    using ei by (simp add: power_int_def)
  finally have "round_half_even (q / 2 powi e) = m * 2 ^ nat (i - e)"
    by (simp only: round_half_even_of_int)
  then have "nearest_double q = of_int (m * 2 ^ nat (i - e)) * 2 powi e"
    by (simp add: nearest_double_def e_def Let_def)
  also have "\<dots> = of_int m * (2 powi (i - e) * 2 powi e)"
    using ei by (simp add: power_int_def)
  also have "\<dots> = of_int m * 2 powi i"
    by (simp add: power_int_add [symmetric] del: power_int_add)
  finally show ?thesis using assms(1) by simp
qed


lemma powi_shift: "(2::rat) powi a * 2 ^ c = 2 powi (a + int c)"
  by (simp add: power_int_add)

lemma float_exponent_eq:
  assumes "2 powi (i + 52) \<le> \<bar>q\<bar>" "\<bar>q\<bar> < 2 powi (i + 53)" "- 1074 \<le> i"
  shows "float_exponent q = i"
proof -
  have le: "float_exponent q \<le> i"
    using float_exponent_le [of q "i + 53"] assms by simp
  have "(2::rat) ^ nat (i + 1126) = 2 powi (i + 1126)"
    using assms(3) by (simp add: power_int_def)
  also have "\<dots> = 2 powi (i + 52) * 2 ^ 1074"
    using powi_shift [of "i + 52" 1074] by (simp only: of_nat_numeral) (simp only: add.assoc, simp)
  also have "\<dots> \<le> \<bar>q\<bar> * 2 ^ 1074"
    using assms(1) by (intro mult_right_mono) simp_all
  finally have "of_int (2 ^ nat (i + 1126)) \<le> \<bar>q\<bar> * 2 ^ 1074"
    by simp
  then have "2 ^ nat (i + 1126) \<le> \<lfloor>\<bar>q\<bar> * 2 ^ 1074\<rfloor>"
    by (simp only: le_floor_iff)
  moreover have "nat (i + 1127) - 1 = nat (i + 1126)"
    using assms(3) by simp
  ultimately have "2 ^ (nat (i + 1127) - 1) \<le> \<lfloor>\<bar>q\<bar> * 2 ^ 1074\<rfloor>"
    by (simp only:)
  then have "i + 1127 \<le> bitlen \<lfloor>\<bar>q\<bar> * 2 ^ 1074\<rfloor>"
    by (simp only: bitlen_ge_iff_power) simp
  then have "i \<le> float_exponent q"
    by (simp add: float_exponent_def)
  with le show ?thesis by simp
qed

lemma not_out_of_range: "\<bar>r\<bar> \<le> 2 ^ k \<Longrightarrow> k < 1024 \<Longrightarrow> \<not> out_of_range r"
proof -
  assume a: "\<bar>r\<bar> \<le> 2 ^ k" "k < 1024"
  have "(2::rat) ^ k < 2 ^ 1024"
    using a(2) by (intro power_strict_increasing) simp_all
  with a(1) show ?thesis
    unfolding out_of_range_def by linarith
qed

lemma float_of_rat_bounded:
  "\<bar>q\<bar> \<le> 2 ^ k \<Longrightarrow> k < 1024 \<Longrightarrow> \<exists>r. float_of_rat q = Fin r \<and> \<bar>r\<bar> \<le> 2 ^ k"
  using nearest_double_bound [of q k] not_out_of_range [of "nearest_double q" k]
  by (simp add: float_of_rat_def Let_def)

lemma magnitude_le_mono: "magnitude_le a b \<Longrightarrow> b \<le> c \<Longrightarrow> magnitude_le a c"
  by (induction a b rule: magnitude_le.induct) auto

lemma to_float_bounded:
  "magnitude_le a (2 ^ k) \<Longrightarrow> k < 1024 \<Longrightarrow> \<exists>r. to_float a = Inr (Fin r) \<and> \<bar>r\<bar> \<le> 2 ^ k"
proof (induction a "2 ^ k :: rat" rule: magnitude_le.induct)
  case (1 n)
  then show ?case
    using nearest_double_bound [of "of_int n" k] not_out_of_range [of "nearest_double (of_int n)" k]
    by (simp add: Let_def)
qed simp_all

lemma nearest_double_25: "nearest_double 25 = 25"
  using nearest_double_exact [of 25 25 0] by simp

lemma not_out_of_range_25: "\<not> out_of_range 25"
  using not_out_of_range [of 25 5] by simp

lemma to_float_25: "to_float (PyInt 25) = Inr (Fin 25)"
  using nearest_double_25 not_out_of_range_25 by (simp add: Let_def)

lemma py_add_bounded:
  assumes "magnitude_le a (2 ^ k)" "magnitude_le b (2 ^ k)" "Suc k < 1024"
  shows "\<exists>c. py_add a b = Inr c \<and> magnitude_le c (2 ^ Suc k)"
proof -
  from assms to_float_bounded [of a k] to_float_bounded [of b k]
  obtain x y where x: "to_float a = Inr (Fin x)" "\<bar>x\<bar> \<le> 2 ^ k"
    and y: "to_float b = Inr (Fin y)" "\<bar>y\<bar> \<le> 2 ^ k"
    by auto
  have "\<bar>x + y\<bar> \<le> 2 ^ Suc k" using x(2) y(2) by simp
  from float_of_rat_bounded [OF this assms(3)] obtain r where
    r: "float_of_rat (x + y) = Fin r" "\<bar>r\<bar> \<le> 2 ^ Suc k" by blast
  show ?thesis
  proof (cases a)
    case (PyInt m)
    note a = this
    show ?thesis
    proof (cases b)
      case (PyInt n)
      with a assms(1,2) have "\<bar>of_int (m + n) :: rat\<bar> \<le> 2 ^ Suc k" by simp
      with a PyInt show ?thesis by simp
    next
      case (PyFloat f)
      with a x y r show ?thesis by simp
    qed
  next
    case (PyFloat f)
    with x y r show ?thesis by simp
  qed
qed

lemma py_sub_bounded:
  assumes "magnitude_le a (2 ^ k)" "magnitude_le b (2 ^ k)" "Suc k < 1024"
  shows "\<exists>c. py_sub a b = Inr c \<and> magnitude_le c (2 ^ Suc k)"
proof -
  from assms to_float_bounded [of a k] to_float_bounded [of b k]
  obtain x y where x: "to_float a = Inr (Fin x)" "\<bar>x\<bar> \<le> 2 ^ k"
    and y: "to_float b = Inr (Fin y)" "\<bar>y\<bar> \<le> 2 ^ k"
    by auto
  have "\<bar>x + - y\<bar> \<le> 2 ^ Suc k" using x(2) y(2) by simp
  from float_of_rat_bounded [OF this assms(3)] obtain r where
    r: "float_of_rat (x + - y) = Fin r" "\<bar>r\<bar> \<le> 2 ^ Suc k" by blast
  show ?thesis
  proof (cases a)
    case (PyInt m)
    note a = this
    show ?thesis
    proof (cases b)
      case (PyInt n)
      with a assms(1,2) have "\<bar>of_int (m - n) :: rat\<bar> \<le> 2 ^ Suc k" by simp
      with a PyInt show ?thesis by simp
    next
      case (PyFloat f)
      with a x y r show ?thesis by (simp add: float_sub_def)
    qed
  next
    case (PyFloat f)
    with x y r show ?thesis by (simp add: float_sub_def)
  qed
qed

lemma py_truediv_steps_bounded:
  assumes "magnitude_le a (2 ^ k)" "k < 1024"
  shows "\<exists>c. py_truediv a (PyInt 25) = Inr c \<and> magnitude_le c (2 ^ k)"
proof (cases a)
  case (PyInt m)
  with assms(1) have "\<bar>of_int m / 25 :: rat\<bar> \<le> 2 ^ k" by simp
  from nearest_double_bound [OF this] not_out_of_range [of "nearest_double (of_int m / 25)" k] assms(2)
  show ?thesis using PyInt by (simp add: Let_def)
next
  case (PyFloat f)
  with assms(1) obtain x where f: "f = Fin x" "\<bar>x\<bar> \<le> 2 ^ k"
    by (cases f) simp_all
  then have "\<bar>x / 25\<bar> \<le> 2 ^ k" by simp
  from float_of_rat_bounded [OF this assms(2)] obtain r where
    "float_of_rat (x / 25) = Fin r" "\<bar>r\<bar> \<le> 2 ^ k" by blast
  with PyFloat f show ?thesis by (simp add: Let_def nearest_double_25 not_out_of_range_25)
qed

lemma py_round_bounded: "magnitude_le a b \<Longrightarrow> \<exists>n. py_round a = Inr n"
  by (induction a b rule: magnitude_le.induct) simp_all

lemma py_int_bounded: "magnitude_le a b \<Longrightarrow> \<exists>n. py_int a = Inr n"
  by (induction a b rule: magnitude_le.induct) simp_all

lemma animate_total:
  assumes "magnitude_le ws (2 ^ k)" "magnitude_le hs (2 ^ k)" "magnitude_le xs (2 ^ k)" "magnitude_le ys (2 ^ k)"
    "magnitude_le nw (2 ^ k)" "magnitude_le nh (2 ^ k)" "magnitude_le nx (2 ^ k)" "magnitude_le ny (2 ^ k)"
    "n + k < 1024"
  shows "\<exists>s'. animate n wid ws hs xs ys nw nh nx ny s = Inr s'"
  using assms
proof (induction n arbitrary: k nw nh nx ny s)
  case 0
  then show ?case by simp
next
  case (Suc n)
  have k: "Suc k < 1024" "n + Suc k < 1024" using Suc.prems(9) by simp_all
  from py_add_bounded [OF Suc.prems(5) Suc.prems(1) k(1)] obtain nw' where
    nw: "py_add nw ws = Inr nw'" "magnitude_le nw' (2 ^ Suc k)" by blast
  from py_add_bounded [OF Suc.prems(6) Suc.prems(2) k(1)] obtain nh' where
    nh: "py_add nh hs = Inr nh'" "magnitude_le nh' (2 ^ Suc k)" by blast
  from py_sub_bounded [OF Suc.prems(7) Suc.prems(3) k(1)] obtain nx' where
    nx: "py_sub nx xs = Inr nx'" "magnitude_le nx' (2 ^ Suc k)" by blast
  from py_sub_bounded [OF Suc.prems(8) Suc.prems(4) k(1)] obtain ny' where
    ny: "py_sub ny ys = Inr ny'" "magnitude_le ny' (2 ^ Suc k)" by blast
  from py_round_bounded [OF nw(2)] py_round_bounded [OF nh(2)]
    py_round_bounded [OF nx(2)] py_round_bounded [OF ny(2)]
  obtain rw rh rx ry where
    r: "py_round nw' = Inr rw" "py_round nh' = Inr rh" "py_round nx' = Inr rx" "py_round ny' = Inr ry"
    by blast
  have "(2::rat) ^ k \<le> 2 ^ Suc k"
    by (intro power_increasing) simp_all
  then have up: "\<And>a. magnitude_le a (2 ^ k) \<Longrightarrow> magnitude_le a (2 ^ Suc k)"
    using magnitude_le_mono by blast
  from Suc.IH [OF up [OF Suc.prems(1)] up [OF Suc.prems(2)] up [OF Suc.prems(3)] up [OF Suc.prems(4)]
      nw(2) nh(2) nx(2) ny(2) k(2)]
  obtain s' where "animate n wid ws hs xs ys nw' nh' nx' ny'
      (run (Windowmove wid rx ry) (run (Windowsize wid rw rh) s)) = Inr s'"
    by blast
  with nw(1) nh(1) nx(1) ny(1) r show ?case by simp
qed

lemma move_window_total:
  assumes "magnitude_le tw (2 ^ 997)" "magnitude_le th (2 ^ 997)" "magnitude_le cw (2 ^ 997)" "magnitude_le ch (2 ^ 997)"
    "magnitude_le cx (2 ^ 997)" "magnitude_le cy (2 ^ 997)" "magnitude_le tx (2 ^ 997)" "magnitude_le ty (2 ^ 997)"
  shows "\<exists>s'. move_window tw th wid cw ch cx cy tx ty s = Inr s'"
proof -
  have k: "Suc 997 < 1024" "(998::nat) < 1024" by simp_all
  from py_sub_bounded [OF assms(1) assms(3) k(1)] obtain dw where
    dw: "py_sub tw cw = Inr dw" "magnitude_le dw (2 ^ 998)" by auto
  from py_sub_bounded [OF assms(2) assms(4) k(1)] obtain dh where
    dh: "py_sub th ch = Inr dh" "magnitude_le dh (2 ^ 998)" by auto
  from py_sub_bounded [OF assms(5) assms(7) k(1)] obtain dx where
    dx: "py_sub cx tx = Inr dx" "magnitude_le dx (2 ^ 998)" by auto
  from py_sub_bounded [OF assms(6) assms(8) k(1)] obtain dy where
    dy: "py_sub cy ty = Inr dy" "magnitude_le dy (2 ^ 998)" by auto
  from py_truediv_steps_bounded [OF dw(2) k(2)] obtain ws where
    ws: "py_truediv dw (PyInt 25) = Inr ws" "magnitude_le ws (2 ^ 998)" by blast
  from py_truediv_steps_bounded [OF dh(2) k(2)] obtain hs where
    hs: "py_truediv dh (PyInt 25) = Inr hs" "magnitude_le hs (2 ^ 998)" by blast
  from py_truediv_steps_bounded [OF dx(2) k(2)] obtain xs where
    xs: "py_truediv dx (PyInt 25) = Inr xs" "magnitude_le xs (2 ^ 998)" by blast
  from py_truediv_steps_bounded [OF dy(2) k(2)] obtain ys where
    ys: "py_truediv dy (PyInt 25) = Inr ys" "magnitude_le ys (2 ^ 998)" by blast
  have "(2::rat) ^ 997 \<le> 2 ^ 998"
    by (intro power_increasing) simp_all
  then have up: "\<And>a. magnitude_le a (2 ^ 997) \<Longrightarrow> magnitude_le a (2 ^ 998)"
    using magnitude_le_mono by blast
  have "25 + 998 < (1024::nat)" by simp
  from animate_total [OF ws(2) hs(2) xs(2) ys(2) up [OF assms(3)] up [OF assms(4)]
      up [OF assms(5)] up [OF assms(6)] this]
  obtain s1 where s1: "animate 25 wid ws hs xs ys cw ch cx cy s = Inr s1" by blast
  from py_int_bounded [OF assms(1)] py_int_bounded [OF assms(2)]
    py_int_bounded [OF assms(7)] py_int_bounded [OF assms(8)] obtain fw fh fx fy where
    "py_int tw = Inr fw" "py_int th = Inr fh" "py_int tx = Inr fx" "py_int ty = Inr fy"
    by blast
  with dw(1) dh(1) dx(1) dy(1) ws(1) hs(1) xs(1) ys(1) s1 show ?thesis
    by (simp add: move_window_def steps_def)
qed


section \<open>Which display the window is on\<close>

lemma scan_two_displays:
  "scan_screens (splitlines two_displays) None [] =
     Inr (Some \<lparr>width = 1920, height = 1080\<rparr>, [\<lparr>width = 1280, height = 1024\<rparr>])"
  by code_simp

lemma get_screens_two_displays:
  "xrandr e = Some two_displays \<Longrightarrow>
   get_screens e = Inr (Some \<lparr>width = 1920, height = 1080\<rparr>, [\<lparr>width = 1280, height = 1024\<rparr>])"
  by (simp add: get_screens_def scan_two_displays)

text \<open>
  C2. With a primary display \<open>p\<close> of width \<open>P\<close>, \<^verbatim>\<open>get_screen_for_window\<close> answers the
  primary's width and height with base offset \<open>0\<close> exactly when \<open>x \<le> P - 1\<close>; for a larger
  \<open>x\<close> it answers the first of the other displays with base offset \<open>P\<close> when there is
  one, and the primary with base offset \<open>0\<close> when there is none.
\<close>

theorem get_screen_for_window_selects:
  assumes "get_screens e = Inr (Some p, others)"
  shows "get_screen_for_window e x_pos =
     Inr (if x_pos \<le> width p - 1 then (width p, height p, 0)
          else (case others of
                  [] \<Rightarrow> (width p, height p, 0)
                | other # rest \<Rightarrow> (width other, height other, width p)))"
  using assms by (simp add: get_screen_for_window_def Let_def split: list.split)

theorem get_screen_for_window_selects_witness:
  "get_screens \<lparr>xdotool = None, xrandr = Some two_displays\<rparr> =
     Inr (Some \<lparr>width = 1920, height = 1080\<rparr>, [\<lparr>width = 1280, height = 1024\<rparr>]) \<and>
   get_screen_for_window \<lparr>xdotool = None, xrandr = Some two_displays\<rparr> 1919 = Inr (1920, 1080, 0) \<and>
   get_screen_for_window \<lparr>xdotool = None, xrandr = Some two_displays\<rparr> 1920 = Inr (1280, 1024, 1920)"
proof -
  have g: "get_screens \<lparr>xdotool = None, xrandr = Some two_displays\<rparr> =
     Inr (Some \<lparr>width = 1920, height = 1080\<rparr>, [\<lparr>width = 1280, height = 1024\<rparr>])"
    by (rule get_screens_two_displays) simp
  show ?thesis
    using g get_screen_for_window_selects [OF g, of 1919] get_screen_for_window_selects [OF g, of 1920]
    by simp
qed


section \<open>The animator\<close>

lemma nearest_double_0: "nearest_double 0 = 0"
  using nearest_double_exact [of 0 0 0] by simp

lemma not_out_of_range_0: "\<not> out_of_range 0"
  by (simp add: out_of_range_def)

lemma int_exact:
  assumes "\<bar>v\<bar> \<le> 2 ^ 53"
  shows "nearest_double (of_int v) = of_int v"
proof -
  consider "\<bar>v\<bar> < 2 ^ 53" | "v = 2 ^ 53" | "v = - (2 ^ 53)"
    using assms by linarith
  then show ?thesis
  proof cases
    case 1
    then show ?thesis using nearest_double_exact [of "of_int v" v 0] by simp
  next
    case 2
    then show ?thesis using nearest_double_exact [of "of_int v" 1 53] by simp
  next
    case 3
    then show ?thesis using nearest_double_exact [of "of_int v" "- 1" 53] by simp
  qed
qed

lemma not_out_of_range_int:
  assumes "\<bar>v\<bar> \<le> 2 ^ 53"
  shows "\<not> out_of_range (of_int v)"
proof -
  have "\<bar>of_int v :: rat\<bar> \<le> 2 ^ 53"
    using assms by (metis of_int_abs of_int_le_numeral_power_cancel_iff)
  then show ?thesis
    by (rule not_out_of_range) simp
qed

lemma to_float_int_exact:
  assumes "\<bar>v\<bar> \<le> 2 ^ 53"
  shows "to_float (PyInt v) = Inr (Fin (of_int v))"
proof -
  have "\<bar>of_int v :: rat\<bar> \<le> 2 ^ 53"
    using assms by (metis of_int_abs of_int_le_numeral_power_cancel_iff)
  then have "\<not> out_of_range (of_int v)"
    by (rule not_out_of_range) simp
  then show ?thesis
    by (simp add: int_exact [OF assms] Let_def)
qed

lemma zero_step_settles:
  assumes "to_float a = Inr (Fin r)" "nearest_double r = r" "\<not> out_of_range r"
  shows "py_add a (PyFloat (Fin 0)) = Inr (PyFloat (Fin r))"
    and "py_sub a (PyFloat (Fin 0)) = Inr (PyFloat (Fin r))"
  using assms by (cases a; simp add: float_of_rat_def float_sub_def)+

lemma animate_zero_steps:
  assumes "to_float nw = Inr (Fin rw)" "nearest_double rw = rw" "\<not> out_of_range rw"
    and "to_float nh = Inr (Fin rh)" "nearest_double rh = rh" "\<not> out_of_range rh"
    and "to_float nx = Inr (Fin rx)" "nearest_double rx = rx" "\<not> out_of_range rx"
    and "to_float ny = Inr (Fin ry)" "nearest_double ry = ry" "\<not> out_of_range ry"
  shows "animate n wid (PyFloat (Fin 0)) (PyFloat (Fin 0)) (PyFloat (Fin 0)) (PyFloat (Fin 0))
           nw nh nx ny s =
         Inr (s\<lparr>requests := requests s @ concat (replicate n
           [Windowsize wid (round_half_even rw) (round_half_even rh),
            Windowmove wid (round_half_even rx) (round_half_even ry)])\<rparr>)"
  using assms
proof (induction n arbitrary: nw nh nx ny s)
  case 0
  then show ?case by simp
next
  case (Suc n)
  have step:
    "py_add nw (PyFloat (Fin 0)) = Inr (PyFloat (Fin rw))"
    "py_add nh (PyFloat (Fin 0)) = Inr (PyFloat (Fin rh))"
    "py_sub nx (PyFloat (Fin 0)) = Inr (PyFloat (Fin rx))"
    "py_sub ny (PyFloat (Fin 0)) = Inr (PyFloat (Fin ry))"
    using zero_step_settles(1) [OF Suc.prems(1,2,3)] zero_step_settles(1) [OF Suc.prems(4,5,6)]
      zero_step_settles(2) [OF Suc.prems(7,8,9)] zero_step_settles(2) [OF Suc.prems(10,11,12)]
    by blast+
  have fl: "\<And>r. to_float (PyFloat (Fin r)) = Inr (Fin r)" by simp
  note IH = Suc.IH [OF fl Suc.prems(2,3) fl Suc.prems(5,6) fl Suc.prems(8,9) fl Suc.prems(11,12)]
  show ?case
    unfolding animate.simps step bindE_Inr py_round.simps IH
    by (simp add: run_def)
qed

lemma move_window_same_target:
  assumes "to_float (PyInt w) = Inr (Fin rw)" "nearest_double rw = rw" "\<not> out_of_range rw"
    and "to_float (PyInt h) = Inr (Fin rh)" "nearest_double rh = rh" "\<not> out_of_range rh"
    and "to_float (PyInt x) = Inr (Fin rx)" "nearest_double rx = rx" "\<not> out_of_range rx"
    and "to_float (PyInt y) = Inr (Fin ry)" "nearest_double ry = ry" "\<not> out_of_range ry"
  shows "move_window (PyInt w) (PyInt h) wid (PyInt w) (PyInt h) (PyInt x) (PyInt y)
           (PyInt x) (PyInt y) s =
         Inr (s\<lparr>requests := requests s @ concat (replicate 25
           [Windowsize wid (round_half_even rw) (round_half_even rh),
            Windowmove wid (round_half_even rx) (round_half_even ry)])
           @ [Windowsize wid w h, Windowmove wid x y]\<rparr>)"
proof -
  have z: "py_truediv (PyInt 0) (PyInt 25) = Inr (PyFloat (Fin 0))"
    by (simp add: Let_def nearest_double_0 not_out_of_range_0)
  have a: "animate 25 wid (PyFloat (Fin 0)) (PyFloat (Fin 0)) (PyFloat (Fin 0)) (PyFloat (Fin 0))
           (PyInt w) (PyInt h) (PyInt x) (PyInt y) s =
         Inr (s\<lparr>requests := requests s @ concat (replicate 25
           [Windowsize wid (round_half_even rw) (round_half_even rh),
            Windowmove wid (round_half_even rx) (round_half_even ry)])\<rparr>)"
    by (rule animate_zero_steps [OF assms])
  have st: "steps = 25" by (simp add: steps_def)
  show ?thesis
    unfolding move_window_def st of_nat_numeral py_sub.simps diff_self bindE_Inr z a py_int.simps
    by (simp add: run_def)
qed


lemma round_half_even_numeral [simp]: "round_half_even (numeral k) = numeral k"
  using round_half_even_of_int [of "numeral k"] by simp

lemma py_trunc_of_int [simp]: "py_trunc (of_int n) = n"
  by (simp add: py_trunc_def)

text \<open>
  C1. \<^verbatim>\<open>move_window\<close>, called with eight numbers of magnitude at most \<open>2 ^ 997\<close> (ints or
  finite floats), issues the requests of exactly 25 frames and then one resize and one
  move request that carry \<^verbatim>\<open>int(target_w)\<close>, \<^verbatim>\<open>int(target_h)\<close>, \<^verbatim>\<open>int(target_x)\<close> and
  \<^verbatim>\<open>int(target_y)\<close>, whatever the frames were rounded to.
\<close>

theorem move_window_final_request:
  assumes "magnitude_le target_w (2 ^ 997)" "magnitude_le target_h (2 ^ 997)"
    and "magnitude_le current_w (2 ^ 997)" "magnitude_le current_h (2 ^ 997)"
    and "magnitude_le current_x (2 ^ 997)" "magnitude_le current_y (2 ^ 997)"
    and "magnitude_le target_x (2 ^ 997)" "magnitude_le target_y (2 ^ 997)"
  shows "\<exists>frames fw fh fx fy.
     length frames = 25 \<and>
     py_int target_w = Inr fw \<and> py_int target_h = Inr fh \<and>
     py_int target_x = Inr fx \<and> py_int target_y = Inr fy \<and>
     move_window target_w target_h window_id current_w current_h current_x current_y
       target_x target_y s =
     Inr (s\<lparr>requests := requests s @ concat (map (frame_requests window_id) frames)
            @ [Windowsize window_id fw fh, Windowmove window_id fx fy]\<rparr>)"
proof -
  from move_window_total [OF assms] obtain s' where
    "move_window target_w target_h window_id current_w current_h current_x current_y
       target_x target_y s = Inr s'"
    by blast
  with move_window_shape [OF this] show ?thesis
    by auto
qed

theorem move_window_final_request_witness:
  "magnitude_le (PyFloat (Fin (1081 / 2))) (2 ^ 997) \<and>
   (\<exists>frames. length frames = 25 \<and>
      move_window (PyInt 1270) (PyFloat (Fin (1081 / 2))) 123 (PyInt 800) (PyInt 600)
        (PyInt 2000) (PyInt 0) (PyInt 1925) (PyInt 5) empty_state =
      Inr \<lparr>cache_dir = None,
           requests = concat (map (frame_requests 123) frames)
             @ [Windowsize 123 1270 540, Windowmove 123 1925 5]\<rparr>)"
proof -
  have m: "magnitude_le (PyFloat (Fin (1081 / 2))) (2 ^ 997)" "magnitude_le (PyInt 1270) (2 ^ 997)"
    "magnitude_le (PyInt 800) (2 ^ 997)" "magnitude_le (PyInt 600) (2 ^ 997)"
    "magnitude_le (PyInt 2000) (2 ^ 997)" "magnitude_le (PyInt 0) (2 ^ 997)"
    "magnitude_le (PyInt 1925) (2 ^ 997)" "magnitude_le (PyInt 5) (2 ^ 997)"
    by simp_all
  have "\<lfloor>1081 / 2 :: rat\<rfloor> = 540"
    by (rule floor_unique) simp_all
  then have t: "py_trunc (1081 / 2) = 540"
    by (simp add: py_trunc_def)
  from move_window_final_request [OF m(2) m(1) m(3) m(4) m(5) m(6) m(7) m(8), of 123 empty_state]
  show ?thesis
    using m(1) by (auto simp: t empty_state_def)
qed

lemma truediv_overflow:
  "py_truediv (PyInt (25 * 2 ^ 1024)) (PyInt 25) = Inl OverflowError"
  "py_truediv (PyInt (- (25 * 2 ^ 1024))) (PyInt 25) = Inl OverflowError"
proof -
  have q: "(of_int (25 * 2 ^ 1024) :: rat) / of_int 25 = 2 ^ 1024"
    "(of_int (- (25 * 2 ^ 1024)) :: rat) / of_int 25 = - (2 ^ 1024)"
    by simp_all
  have nd: "nearest_double (2 ^ 1024) = 2 ^ 1024"
    using nearest_double_exact [of "2 ^ 1024" 1 1024] by simp
  have nd': "nearest_double (- (2 ^ 1024)) = - (2 ^ 1024)"
    using nearest_double_exact [of "- (2 ^ 1024)" "- 1" 1024] by simp
  have "out_of_range (nearest_double (2 ^ 1024))"
    unfolding nd out_of_range_def by simp
  then show "py_truediv (PyInt (25 * 2 ^ 1024)) (PyInt 25) = Inl OverflowError"
    unfolding py_truediv.simps q Let_def by simp
  have "out_of_range (nearest_double (- (2 ^ 1024)))"
    unfolding nd' out_of_range_def by simp
  then show "py_truediv (PyInt (- (25 * 2 ^ 1024))) (PyInt 25) = Inl OverflowError"
    unfolding py_truediv.simps q Let_def by simp
qed

theorem move_window_final_request_counterexample:
  "move_window (PyInt (25 * 2 ^ 1024)) (PyInt 600) 123 (PyInt 0) (PyInt 600)
     (PyInt 0) (PyInt 0) (PyInt 0) (PyInt 0) empty_state = Inl OverflowError"
proof -
  have st: "steps = 25" by (simp add: steps_def)
  show ?thesis
    unfolding move_window_def st of_nat_numeral py_sub.simps diff_zero bindE_Inr
      truediv_overflow bindE_Inl
    by (rule refl)
qed

text \<open>
  C10. \<^verbatim>\<open>move_window\<close>, called with the target equal to the current rectangle, ints of
  magnitude at most \<open>2 ^ 53\<close>, issues that rectangle in each of the 25 frames and in the
  closing request.
\<close>

theorem move_window_still:
  assumes "\<bar>w\<bar> \<le> 2 ^ 53" "\<bar>h\<bar> \<le> 2 ^ 53" "\<bar>x\<bar> \<le> 2 ^ 53" "\<bar>y\<bar> \<le> 2 ^ 53"
  shows "move_window (PyInt w) (PyInt h) window_id (PyInt w) (PyInt h) (PyInt x) (PyInt y)
           (PyInt x) (PyInt y) s =
         Inr (s\<lparr>requests := requests s
           @ concat (replicate 25 [Windowsize window_id w h, Windowmove window_id x y])
           @ [Windowsize window_id w h, Windowmove window_id x y]\<rparr>)"
proof -
  note r = not_out_of_range_int
  from move_window_same_target
    [OF to_float_int_exact [OF assms(1)] int_exact [OF assms(1)] r [OF assms(1)]
        to_float_int_exact [OF assms(2)] int_exact [OF assms(2)] r [OF assms(2)]
        to_float_int_exact [OF assms(3)] int_exact [OF assms(3)] r [OF assms(3)]
        to_float_int_exact [OF assms(4)] int_exact [OF assms(4)] r [OF assms(4)],
      of window_id s]
  show ?thesis by simp
qed

theorem move_window_still_witness:
  "\<bar>800 :: int\<bar> \<le> 2 ^ 53 \<and>
   move_window (PyInt 800) (PyInt 600) 123 (PyInt 800) (PyInt 600) (PyInt 100) (PyInt 50)
     (PyInt 100) (PyInt 50) empty_state =
   Inr \<lparr>cache_dir = None,
        requests = concat (replicate 25 [Windowsize 123 800 600, Windowmove 123 100 50])
          @ [Windowsize 123 800 600, Windowmove 123 100 50]\<rparr>"
  using move_window_still [of 800 600 100 50 123 empty_state]
  by (simp add: empty_state_def)

lemma nearest_double_above_2_53: "nearest_double (2 ^ 53 + 1) = 2 ^ 53"
proof -
  have e: "float_exponent (2 ^ 53 + 1) = 1"
    by (rule float_exponent_eq) simp_all
  have f: "\<lfloor>9007199254740993 / 2 :: rat\<rfloor> = 4503599627370496"
    by (rule floor_unique) simp_all
  have "round_half_even (9007199254740993 / 2) = 4503599627370496"
    unfolding round_half_even_def Let_def f by simp
  then show ?thesis
    unfolding nearest_double_def Let_def e
    by simp
qed

theorem move_window_still_counterexample:
  "move_window (PyInt (2 ^ 53 + 1)) (PyInt 600) 123 (PyInt (2 ^ 53 + 1)) (PyInt 600)
     (PyInt 0) (PyInt 0) (PyInt 0) (PyInt 0) empty_state =
   Inr \<lparr>cache_dir = None,
        requests = concat (replicate 25 [Windowsize 123 (2 ^ 53) 600, Windowmove 123 0 0])
          @ [Windowsize 123 (2 ^ 53 + 1) 600, Windowmove 123 0 0]\<rparr>"
proof -
  have big: "to_float (PyInt (2 ^ 53 + 1)) = Inr (Fin (2 ^ 53))"
  proof -
    have "\<not> out_of_range (2 ^ 53)"
      by (rule not_out_of_range [of _ 53]) simp_all
    then show ?thesis
      using nearest_double_above_2_53 by (simp add: Let_def)
  qed
  have nd: "nearest_double (2 ^ 53) = 2 ^ 53"
    using nearest_double_exact [of "2 ^ 53" 1 53] by simp
  have oor: "\<not> out_of_range (2 ^ 53)"
    by (rule not_out_of_range [of _ 53]) simp_all
  note small = not_out_of_range_int
  have h: "\<bar>600 :: int\<bar> \<le> 2 ^ 53" and z: "\<bar>0 :: int\<bar> \<le> 2 ^ 53" by simp_all
  from move_window_same_target
    [OF big nd oor
        to_float_int_exact [OF h] int_exact [OF h] small [OF h]
        to_float_int_exact [OF z] int_exact [OF z] small [OF z]
        to_float_int_exact [OF z] int_exact [OF z] small [OF z],
      of 123 empty_state]
  show ?thesis by (simp add: empty_state_def)
qed


section \<open>The cache file\<close>

lemma of_char_digit_char: "d < 10 \<Longrightarrow> (of_char (digit_char d) :: nat) = 48 + d"
  by (simp add: digit_char_def)

lemma isdigit_digit_char: "d < 10 \<Longrightarrow> isdigit (digit_char d)"
  by (simp add: isdigit_def of_char_digit_char)

lemma digit_value_digit_char: "d < 10 \<Longrightarrow> digit_value (digit_char d) = int d"
  by (simp add: digit_value_def of_char_digit_char)

lemma isdigit_not_space: "isdigit c \<Longrightarrow> \<not> isspace c"
  by (auto simp: isdigit_def isspace_def)

lemma isdigit_not_special:
  "isdigit c \<Longrightarrow> c \<noteq> CHR ''='' \<and> c \<noteq> CHR ''-'' \<and> c \<noteq> CHR ''+'' \<and> c \<noteq> CHR ''_''
     \<and> c \<noteq> CHR 0x0A \<and> c \<noteq> CHR 0x0D"
  by (auto simp: isdigit_def)

lemma str_nat_digits: "c \<in> set (str_nat n) \<Longrightarrow> isdigit c"
proof (induction n arbitrary: c rule: str_nat.induct)
  case (1 n)
  show ?case
  proof (cases "n < 10")
    case True
    with "1.prems" show ?thesis
      by (subst (asm) str_nat.simps) (simp add: isdigit_digit_char)
  next
    case False
    with "1.prems" have "c \<in> set (str_nat (n div 10)) \<or> c = digit_char (n mod 10)"
      by (subst (asm) str_nat.simps) auto
    with "1.IH" [OF False] show ?thesis
      by (auto simp: isdigit_digit_char)
  qed
qed

lemma str_nat_nonempty: "str_nat n \<noteq> []"
  by (subst str_nat.simps) simp

lemma int_digits_all:
  "\<forall>c \<in> set xs. isdigit c \<Longrightarrow>
   int_digits xs acc = Some (foldl (\<lambda>a c. 10 * a + digit_value c) acc xs)"
  by (induction xs arbitrary: acc) simp_all

lemma foldl_str_nat: "foldl (\<lambda>a c. 10 * a + digit_value c) 0 (str_nat n) = int n"
proof (induction n rule: str_nat.induct)
  case (1 n)
  show ?case
  proof (cases "n < 10")
    case True
    then show ?thesis
      by (subst str_nat.simps) (simp add: digit_value_digit_char)
  next
    case False
    have "foldl (\<lambda>a c. 10 * a + digit_value c) 0 (str_nat n) =
          10 * foldl (\<lambda>a c. 10 * a + digit_value c) 0 (str_nat (n div 10))
            + digit_value (digit_char (n mod 10))"
      using False by (subst str_nat.simps) simp
    also have "\<dots> = 10 * int (n div 10) + int (n mod 10)"
      using "1.IH" [OF False] by (simp add: digit_value_digit_char)
    also have "\<dots> = int n"
      by arith
    finally show ?thesis .
  qed
qed

lemma int_unsigned_str_nat: "int_unsigned (str_nat n) = Inr (int n)"
proof -
  obtain c cs where s: "str_nat n = c # cs"
    using str_nat_nonempty [of n] by (cases "str_nat n") auto
  then have "isdigit c"
    using str_nat_digits [of c n] by simp
  moreover have "int_digits (str_nat n) 0 = Some (int n)"
    using int_digits_all [of "str_nat n" 0] str_nat_digits [of _ n] by (simp add: foldl_str_nat)
  ultimately show ?thesis
    by (simp add: int_unsigned_def s [symmetric]) (simp add: s)
qed

lemma strip_noop:
  assumes "s \<noteq> []" "\<not> isspace (hd s)" "\<not> isspace (last s)"
  shows "strip s = s"
proof -
  have 1: "dropWhile isspace s = s"
    using assms(1,2) by (cases s) simp_all
  have "rev s \<noteq> []" "\<not> isspace (hd (rev s))"
    using assms(1,3) by (simp_all add: hd_rev)
  then have "dropWhile isspace (rev s) = rev s"
    by (cases "rev s") simp_all
  with 1 show ?thesis
    by (simp add: strip_def)
qed

lemma int_strip_noop:
  assumes "s \<noteq> []" "\<not> isspace (hd s)" "\<not> isspace (last s)"
  shows "int_strip s = s"
proof -
  have sp: "int_space c \<Longrightarrow> isspace c" for c
    by (auto simp: int_space_def isspace_def)
  have 1: "dropWhile int_space s = s"
    using assms(1,2) sp by (cases s) auto
  have "rev s \<noteq> []" "\<not> isspace (hd (rev s))"
    using assms(1,3) by (simp_all add: hd_rev)
  then have "dropWhile int_space (rev s) = rev s"
    using sp by (cases "rev s") auto
  with 1 show ?thesis
    by (simp add: int_strip_def)
qed

lemma py_str_chars: "c \<in> set (py_str v) \<Longrightarrow> isdigit c \<or> c = CHR ''-''"
  by (auto simp: py_str_def dest: str_nat_digits split: if_splits)

lemma py_str_nonempty: "py_str v \<noteq> []"
  by (simp add: py_str_def str_nat_nonempty)

lemma last_py_str: "isdigit (last (py_str v))"
proof -
  have "last (py_str v) = last (str_nat (nat \<bar>v\<bar>))"
    by (auto simp: py_str_def str_nat_nonempty)
  moreover have "last (str_nat (nat \<bar>v\<bar>)) \<in> set (str_nat (nat \<bar>v\<bar>))"
    by (rule last_in_set) (rule str_nat_nonempty)
  ultimately show ?thesis
    using str_nat_digits by simp
qed

lemma py_int_str_py_str: "py_int_str (py_str v) = Inr v"
proof (cases "v < 0")
  case True
  then have p: "py_str v = CHR ''-'' # str_nat (nat (- v))"
    by (simp add: py_str_def)
  have "\<not> isspace (CHR ''-'')"
    by (simp add: isspace_def)
  then have "int_strip (py_str v) = py_str v"
    using last_py_str [of v] by (intro int_strip_noop) (simp_all add: p isdigit_not_space)
  then show ?thesis
    using True by (simp add: py_int_str_def p int_unsigned_str_nat)
next
  case False
  then have p: "py_str v = str_nat (nat v)"
    by (simp add: py_str_def)
  obtain c cs where s: "str_nat (nat v) = c # cs"
    using str_nat_nonempty [of "nat v"] by (cases "str_nat (nat v)") auto
  then have d: "isdigit c"
    using str_nat_digits [of c "nat v"] by simp
  have "int_strip (py_str v) = py_str v"
    using last_py_str [of v] d by (intro int_strip_noop) (simp_all add: p s isdigit_not_space)
  moreover have "int_unsigned (c # cs) = Inr v"
    using int_unsigned_str_nat [of "nat v"] False by (simp add: s)
  ultimately show ?thesis
    using isdigit_not_special [OF d] by (simp add: py_int_str_def p s)
qed


lemma file_lines_from_line:
  assumes "CHR 0x0A \<notin> set l" "CHR 0x0D \<notin> set l"
  shows "file_lines_from (l @ CHR 0x0A # rest) cur = (rev cur @ l) # file_lines_from rest []"
  using assms by (induction l arbitrary: cur) auto

lemma split_sep1_at:
  assumes "sep \<notin> set k"
  shows "split_sep1 sep (k @ sep # v) = [k, v]"
proof -
  have "takeWhile (\<lambda>c. c \<noteq> sep) (k @ sep # v) = k"
    using assms by (induction k) auto
  moreover have "dropWhile (\<lambda>c. c \<noteq> sep) (k @ sep # v) = sep # v"
    using assms by (induction k) auto
  ultimately show ?thesis
    by (simp add: split_sep1_def)
qed

lemma pid_line_strip:
  assumes "plain_key k"
  shows "strip (k @ CHR ''='' # py_str v) = k @ CHR ''='' # py_str v"
proof (rule strip_noop)
  show "k @ CHR ''='' # py_str v \<noteq> []" by simp
  show "\<not> isspace (hd (k @ CHR ''='' # py_str v))"
    using assms by (simp add: plain_key_def)
  show "\<not> isspace (last (k @ CHR ''='' # py_str v))"
    using last_py_str [of v] by (simp add: py_str_nonempty isdigit_not_space)
qed

lemma py_str_no_break: "CHR 0x0A \<notin> set (py_str v)" "CHR 0x0D \<notin> set (py_str v)"
  using py_str_chars [of "CHR 0x0A" v] py_str_chars [of "CHR 0x0D" v]
  by (auto simp: isdigit_def)

lemma read_pid_text:
  assumes "\<forall>(k, v) \<in> set data. plain_key k"
  shows "read_pid_lines (file_lines_from (pid_text data) []) acc =
           Inr (fold (\<lambda>(k, v) d. setitem d k v) data acc)"
  using assms
proof (induction data arbitrary: acc)
  case Nil
  then show ?case by (simp add: pid_text_def)
next
  case (Cons kv data)
  obtain k v where kv: "kv = (k, v)" by (cases kv)
  with Cons.prems have k: "plain_key k" and rest: "\<forall>(k, v) \<in> set data. plain_key k"
    by simp_all
  let ?line = "k @ CHR ''='' # py_str v"
  have br: "CHR 0x0A \<notin> set ?line" "CHR 0x0D \<notin> set ?line"
    using k py_str_no_break [of v] by (simp_all add: plain_key_def)
  have "pid_text (kv # data) = ?line @ CHR 0x0A # pid_text data"
    by (simp add: pid_text_def kv)
  then have lines: "file_lines_from (pid_text (kv # data)) [] =
      ?line # file_lines_from (pid_text data) []"
    using file_lines_from_line [OF br, of "pid_text data" "[]"] by simp
  have eq: "CHR ''='' \<in> set ?line" by simp
  have sp: "split_sep1 (CHR ''='') (strip ?line) = [k, py_str v]"
    using k by (simp add: pid_line_strip split_sep1_at plain_key_def)
  show ?case
    unfolding lines read_pid_lines.simps
    using eq sp Cons.IH [OF rest] by (simp add: py_int_str_py_str kv)
qed

lemma plain_keys_items: "\<forall>(k, v) \<in> set (items win). plain_key k"
  by (simp add: items_def plain_key_def isspace_def)

lemma load_pid_save_pid:
  "load_pid (WINDOW win) (save_pid (WINDOW win) (items win) s) = Inr (Some (items win))"
proof -
  have "fold (\<lambda>(k, v) d. setitem d k v) (items win) [] = items win"
    by (simp add: items_def setitem_def)
  then show ?thesis
    using read_pid_text [OF plain_keys_items, of win "[]"]
    by (simp add: load_pid_def save_pid_def Let_def)
qed

lemma load_pid_no_record: "no_record window_id s \<Longrightarrow> load_pid window_id s = Inr None"
  by (simp add: no_record_def load_pid_def split: option.splits)

lemma requests_save_pid [simp]: "requests (save_pid w d s) = requests s"
  by (simp add: save_pid_def Let_def)


section \<open>The actions\<close>

lemma scan_default_display:
  "scan_screens (splitlines default_display) None [] =
     Inr (Some \<lparr>width = 1920, height = 1080\<rparr>, [])"
  by code_simp

lemma scan_no_primary:
  "scan_screens (splitlines no_primary) None [] = Inr (None, [\<lparr>width = 1280, height = 1024\<rparr>])"
  by code_simp

lemma scan_interlaced:
  "scan_screens (splitlines interlaced) None [] = Inl ValueError"
  by code_simp

lemma load_pid_requests [simp]: "load_pid w (s\<lparr>requests := r\<rparr>) = load_pid w s"
  by (simp add: load_pid_def)

lemma int_magnitude:
  assumes "\<bar>v\<bar> \<le> 2 ^ 997"
  shows "magnitude_le (PyInt v) (2 ^ 997)"
proof -
  have "\<bar>of_int v :: rat\<bar> \<le> 2 ^ 997"
    using assms by (metis of_int_abs of_int_le_numeral_power_cancel_iff)
  then show ?thesis by simp
qed

lemma int_magnitude_sum:
  assumes "\<bar>a\<bar> \<le> 2 ^ 996" "\<bar>b\<bar> \<le> 2 ^ 996"
  shows "magnitude_le (PyInt (a + b)) (2 ^ 997)" "magnitude_le (PyInt (a - b)) (2 ^ 997)"
    "magnitude_le (PyInt a) (2 ^ 997)"
proof -
  have "(2::int) ^ 997 = 2 * 2 ^ 996" by simp
  with assms have "\<bar>a + b\<bar> \<le> 2 ^ 997" "\<bar>a - b\<bar> \<le> 2 ^ 997" "\<bar>a\<bar> \<le> 2 ^ 997"
    by linarith+
  then show "magnitude_le (PyInt (a + b)) (2 ^ 997)" "magnitude_le (PyInt (a - b)) (2 ^ 997)"
    "magnitude_le (PyInt a) (2 ^ 997)"
    by (simp_all only: int_magnitude)
qed

lemma move_window_ints:
  assumes "magnitude_le (PyInt tw) (2 ^ 997)" "magnitude_le (PyInt th) (2 ^ 997)"
    and "magnitude_le (PyInt cw) (2 ^ 997)" "magnitude_le (PyInt ch) (2 ^ 997)"
    and "magnitude_le (PyInt cx) (2 ^ 997)" "magnitude_le (PyInt cy) (2 ^ 997)"
    and "magnitude_le (PyInt tx) (2 ^ 997)" "magnitude_le (PyInt ty) (2 ^ 997)"
  shows "\<exists>frames. length frames = 25 \<and>
     move_window (PyInt tw) (PyInt th) wid (PyInt cw) (PyInt ch) (PyInt cx) (PyInt cy)
       (PyInt tx) (PyInt ty) s =
     Inr (s\<lparr>requests := requests s @ concat (map (frame_requests wid) frames)
            @ [Windowsize wid tw th, Windowmove wid tx ty]\<rparr>)"
proof -
  from move_window_total [OF assms] obtain s' where
    "move_window (PyInt tw) (PyInt th) wid (PyInt cw) (PyInt ch) (PyInt cx) (PyInt cy)
       (PyInt tx) (PyInt ty) s = Inr s'"
    by blast
  with move_window_shape [OF this] show ?thesis
    by auto
qed


lemma move_window_overflow_y:
  assumes "\<bar>tw\<bar> \<le> 2 ^ 996" "\<bar>cw\<bar> \<le> 2 ^ 996" "\<bar>th\<bar> \<le> 2 ^ 996" "\<bar>ch\<bar> \<le> 2 ^ 996"
    "\<bar>cx\<bar> \<le> 2 ^ 996" "\<bar>tx\<bar> \<le> 2 ^ 996"
    and "py_truediv (PyInt (cy - ty)) (PyInt 25) = Inl OverflowError"
  shows "move_window (PyInt tw) (PyInt th) wid (PyInt cw) (PyInt ch) (PyInt cx) (PyInt cy)
           (PyInt tx) (PyInt ty) s = Inl OverflowError"
proof -
  have k: "(997::nat) < 1024" by simp
  from py_truediv_steps_bounded [OF int_magnitude_sum(2) [OF assms(1) assms(2)] k]
  obtain ws where ws: "py_truediv (PyInt (tw - cw)) (PyInt 25) = Inr ws" by blast
  from py_truediv_steps_bounded [OF int_magnitude_sum(2) [OF assms(3) assms(4)] k]
  obtain hs where hs: "py_truediv (PyInt (th - ch)) (PyInt 25) = Inr hs" by blast
  from py_truediv_steps_bounded [OF int_magnitude_sum(2) [OF assms(5) assms(6)] k]
  obtain xs where xs: "py_truediv (PyInt (cx - tx)) (PyInt 25) = Inr xs" by blast
  have st: "steps = 25" by (simp add: steps_def)
  show ?thesis
    unfolding move_window_def st of_nat_numeral py_sub.simps bindE_Inr ws hs xs assms(7) bindE_Inl
    by (rule refl)
qed

lemma to_float_overflow: "to_float (PyInt (2 ^ 1024)) = Inl OverflowError"
proof -
  have nd: "nearest_double (2 ^ 1024) = 2 ^ 1024"
    using nearest_double_exact [of "2 ^ 1024" 1 1024] by simp
  have "out_of_range (nearest_double (2 ^ 1024))"
    unfolding nd out_of_range_def by simp
  then show ?thesis
    unfolding to_float.simps of_int_power of_int_numeral Let_def by simp
qed

text \<open>
  With steps of zero for width, height and \<open>y\<close>, the first pass of the loop already
  raises when \<open>y\<close> is an int that no float holds: \<^verbatim>\<open>new_y -= y_move_step\<close> converts it.
\<close>

lemma move_window_overflow_pass:
  assumes "\<bar>w\<bar> \<le> 2 ^ 53" "\<bar>h\<bar> \<le> 2 ^ 53" "\<bar>x\<bar> \<le> 2 ^ 996" "\<bar>tx\<bar> \<le> 2 ^ 996"
    and "to_float (PyInt y) = Inl OverflowError"
  shows "move_window (PyInt w) (PyInt h) wid (PyInt w) (PyInt h) (PyInt x) (PyInt y)
           (PyInt tx) (PyInt y) s = Inl OverflowError"
proof -
  have z: "py_truediv (PyInt 0) (PyInt 25) = Inr (PyFloat (Fin 0))"
    by (simp add: Let_def nearest_double_0 not_out_of_range_0)
  have k: "(997::nat) < 1024" "Suc 997 < 1024" by simp_all
  from py_truediv_steps_bounded [OF int_magnitude_sum(2) [OF assms(3) assms(4)] k(1)]
  obtain xs where xs: "py_truediv (PyInt (x - tx)) (PyInt 25) = Inr xs"
    and xs_le: "magnitude_le xs (2 ^ 997)" by blast
  have a1: "py_add (PyInt w) (PyFloat (Fin 0)) = Inr (PyFloat (Fin (of_int w)))"
    by (rule zero_step_settles(1)
        [OF to_float_int_exact [OF assms(1)] int_exact [OF assms(1)]
            not_out_of_range_int [OF assms(1)]])
  have a2: "py_add (PyInt h) (PyFloat (Fin 0)) = Inr (PyFloat (Fin (of_int h)))"
    by (rule zero_step_settles(1)
        [OF to_float_int_exact [OF assms(2)] int_exact [OF assms(2)]
            not_out_of_range_int [OF assms(2)]])
  from py_sub_bounded [OF int_magnitude_sum(3) [OF assms(3) assms(3)] xs_le k(2)]
  obtain c where a3: "py_sub (PyInt x) xs = Inr c" by blast
  have a4: "py_sub (PyInt y) (PyFloat (Fin 0)) = Inl OverflowError"
    unfolding py_sub.simps assms(5) bindE_Inl by (rule refl)
  have pass: "animate (Suc n) wid (PyFloat (Fin 0)) (PyFloat (Fin 0)) xs (PyFloat (Fin 0))
      (PyInt w) (PyInt h) (PyInt x) (PyInt y) s = Inl OverflowError" for n
    unfolding animate.simps a1 a2 a3 a4 bindE_Inr bindE_Inl by (rule refl)
  have st: "steps = Suc 24" by (simp add: steps_def)
  have st': "int (Suc 24) = 25" by simp
  show ?thesis
    unfolding move_window_def st st' py_sub.simps diff_self bindE_Inr z xs pass bindE_Inl
    by (rule refl)
qed

lemma get_screens_example [simp]:
  "get_screens example_env =
     Inr (Some \<lparr>width = 1920, height = 1080\<rparr>, [\<lparr>width = 1280, height = 1024\<rparr>])"
  "get_screens primary_env =
     Inr (Some \<lparr>width = 1920, height = 1080\<rparr>, [\<lparr>width = 1280, height = 1024\<rparr>])"
  by (simp_all add: get_screens_two_displays example_env_def primary_env_def)

lemma get_screens_no_primary [simp]:
  "get_screens no_primary_env = Inr (None, [\<lparr>width = 1280, height = 1024\<rparr>])"
  by (simp add: get_screens_def no_primary_env_def scan_no_primary)

lemma get_screens_default [simp]:
  "get_screens (e\<lparr>xrandr := Some default_display\<rparr>) =
     Inr (Some \<lparr>width = 1920, height = 1080\<rparr>, [])"
  by (simp add: get_screens_def scan_default_display)

lemma get_window_position_xrandr [simp]:
  "get_window_position (e\<lparr>xrandr := t\<rparr>) = get_window_position e"
  by (simp add: get_window_position_def)

lemma get_window_position_example [simp]:
  "get_window_position example_env = Inr example_window"
  "get_window_position primary_env = Inr (example_window\<lparr>X := 100\<rparr>)"
  "get_window_position no_primary_env = Inr (example_window\<lparr>X := 100\<rparr>)"
  by (simp_all add: get_window_position_def example_env_def primary_env_def no_primary_env_def)

lemma fullscreen_call:
  assumes "get_window_position e = Inr win"
    and "get_screen_for_window e (X win) = Inr (screen_w, screen_h, base_x_offset)"
  shows "fullscreen e s =
       move_window (PyInt (screen_w - 10)) (PyInt (screen_h - 10)) (WINDOW win)
         (PyInt (WIDTH win)) (PyInt (HEIGHT win)) (PyInt (X win)) (PyInt (Y win))
         (PyInt (if 0 < base_x_offset then base_x_offset + 5 else 5)) (PyInt 5)
         (save_pid (WINDOW win) (items win) s)"
  using assms by (simp add: fullscreen_def Let_def)

lemma fullscreen_runs:
  assumes "get_window_position e = Inr win"
    and "get_screen_for_window e (X win) = Inr (screen_w, screen_h, base_x_offset)"
    and b: "\<bar>screen_w\<bar> \<le> 2 ^ 996" "\<bar>screen_h\<bar> \<le> 2 ^ 996" "\<bar>base_x_offset\<bar> \<le> 2 ^ 996"
      "\<bar>WIDTH win\<bar> \<le> 2 ^ 996" "\<bar>HEIGHT win\<bar> \<le> 2 ^ 996" "\<bar>X win\<bar> \<le> 2 ^ 996" "\<bar>Y win\<bar> \<le> 2 ^ 996"
  shows "\<exists>frames s'. length frames = 25 \<and> fullscreen e s = Inr s' \<and>
         load_pid (WINDOW win) s' = Inr (Some (items win)) \<and>
         requests s' = requests s @ concat (map (frame_requests (WINDOW win)) frames)
           @ [Windowsize (WINDOW win) (screen_w - 10) (screen_h - 10),
              Windowmove (WINDOW win) (if 0 < base_x_offset then base_x_offset + 5 else 5) 5]"
proof -
  note call = fullscreen_call [OF assms(1,2)]
  have c: "\<bar>10 :: int\<bar> \<le> 2 ^ 996" "\<bar>5 :: int\<bar> \<le> 2 ^ 996" by simp_all
  have x: "magnitude_le (PyInt (if 0 < base_x_offset then base_x_offset + 5 else 5)) (2 ^ 997)"
  proof (cases "0 < base_x_offset")
    case True
    then show ?thesis
      using int_magnitude_sum(1) [OF b(3) c(2)] by (simp only: if_True)
  next
    case False
    then show ?thesis
      using int_magnitude_sum(3) [OF c(2) c(2)] by (simp only: if_False)
  qed
  from move_window_ints
    [OF int_magnitude_sum(2) [OF b(1) c(1)] int_magnitude_sum(2) [OF b(2) c(1)]
        int_magnitude_sum(3) [OF b(4) c(1)] int_magnitude_sum(3) [OF b(5) c(1)]
        int_magnitude_sum(3) [OF b(6) c(1)] int_magnitude_sum(3) [OF b(7) c(1)]
        x int_magnitude_sum(3) [OF c(2) c(2)],
      of "WINDOW win" "save_pid (WINDOW win) (items win) s"]
  obtain frames where "length frames = 25" and
    "fullscreen e s = Inr ((save_pid (WINDOW win) (items win) s)
       \<lparr>requests := requests (save_pid (WINDOW win) (items win) s)
          @ concat (map (frame_requests (WINDOW win)) frames)
          @ [Windowsize (WINDOW win) (screen_w - 10) (screen_h - 10),
             Windowmove (WINDOW win) (if 0 < base_x_offset then base_x_offset + 5 else 5) 5]\<rparr>)"
    unfolding call by blast
  then show ?thesis
    by (intro exI conjI) (assumption, assumption, simp_all add: load_pid_save_pid)
qed

text \<open>
  C4. \<^verbatim>\<open>fullscreen\<close> first writes the geometry of the window to the cache file of its
  window id, so that \<^verbatim>\<open>load_pid\<close> reads it back, and then calls the animator with the
  target size \<open>(screen_w - 10, screen_h - 10)\<close> at \<open>(base_x_offset + 5, 5)\<close> when the base
  offset is positive (the window is on the second display) and at \<open>(5, 5)\<close> otherwise.
  For values of magnitude at most \<open>2 ^ 996\<close> the animation completes and ends with the
  requests for exactly that rectangle. The bound is needed: the steps of the animation
  are float divisions, which raise \<^verbatim>\<open>OverflowError\<close> for a window far enough away.
\<close>

theorem fullscreen_target:
  assumes "get_window_position e = Inr win"
    and "get_screen_for_window e (X win) = Inr (screen_w, screen_h, base_x_offset)"
  shows
    "fullscreen e s =
       move_window (PyInt (screen_w - 10)) (PyInt (screen_h - 10)) (WINDOW win)
         (PyInt (WIDTH win)) (PyInt (HEIGHT win)) (PyInt (X win)) (PyInt (Y win))
         (PyInt (if 0 < base_x_offset then base_x_offset + 5 else 5)) (PyInt 5)
         (save_pid (WINDOW win) (items win) s) \<and>
     load_pid (WINDOW win) (save_pid (WINDOW win) (items win) s) = Inr (Some (items win)) \<and>
     (\<bar>screen_w\<bar> \<le> 2 ^ 996 \<and> \<bar>screen_h\<bar> \<le> 2 ^ 996 \<and> \<bar>base_x_offset\<bar> \<le> 2 ^ 996 \<and>
      \<bar>WIDTH win\<bar> \<le> 2 ^ 996 \<and> \<bar>HEIGHT win\<bar> \<le> 2 ^ 996 \<and>
      \<bar>X win\<bar> \<le> 2 ^ 996 \<and> \<bar>Y win\<bar> \<le> 2 ^ 996 \<longrightarrow>
      (\<exists>frames s'. length frames = 25 \<and> fullscreen e s = Inr s' \<and>
         load_pid (WINDOW win) s' = Inr (Some (items win)) \<and>
         requests s' = requests s @ concat (map (frame_requests (WINDOW win)) frames)
           @ [Windowsize (WINDOW win) (screen_w - 10) (screen_h - 10),
              Windowmove (WINDOW win) (if 0 < base_x_offset then base_x_offset + 5 else 5) 5]))"
  using fullscreen_call [OF assms] fullscreen_runs [OF assms] load_pid_save_pid
  by blast

lemma get_screen_for_window_example [simp]:
  "get_screen_for_window example_env 2000 = Inr (1280, 1024, 1920)"
  "get_screen_for_window primary_env 100 = Inr (1920, 1080, 0)"
  by (simp_all add: get_screen_for_window_def)

theorem fullscreen_target_witness:
  "get_window_position example_env = Inr example_window \<and>
   get_screen_for_window example_env (X example_window) = Inr (1280, 1024, 1920) \<and>
   (\<exists>frames s'. length frames = 25 \<and> fullscreen example_env empty_state = Inr s' \<and>
      load_pid 123 s' = Inr (Some (items example_window)) \<and>
      requests s' = concat (map (frame_requests 123) frames)
        @ [Windowsize 123 1270 1014, Windowmove 123 1925 5])"
proof -
  have w: "get_window_position example_env = Inr example_window"
    by simp
  have g: "get_screen_for_window example_env (X example_window) = Inr (1280, 1024, 1920)"
    by (simp add: example_window_def)
  have b: "\<bar>1280 :: int\<bar> \<le> 2 ^ 996 \<and> \<bar>1024 :: int\<bar> \<le> 2 ^ 996 \<and> \<bar>1920 :: int\<bar> \<le> 2 ^ 996 \<and>
      \<bar>WIDTH example_window\<bar> \<le> 2 ^ 996 \<and> \<bar>HEIGHT example_window\<bar> \<le> 2 ^ 996 \<and>
      \<bar>X example_window\<bar> \<le> 2 ^ 996 \<and> \<bar>Y example_window\<bar> \<le> 2 ^ 996"
    by (simp add: example_window_def)
  from fullscreen_target [OF w g, of empty_state] b
  have "\<exists>frames s'. length frames = 25 \<and> fullscreen example_env empty_state = Inr s' \<and>
         load_pid (WINDOW example_window) s' = Inr (Some (items example_window)) \<and>
         requests s' = requests empty_state @ concat (map (frame_requests (WINDOW example_window)) frames)
           @ [Windowsize (WINDOW example_window) (1280 - 10) (1024 - 10),
              Windowmove (WINDOW example_window) (if (0::int) < 1920 then 1920 + 5 else 5) 5]"
    by blast
  then have "\<exists>frames s'. length frames = 25 \<and> fullscreen example_env empty_state = Inr s' \<and>
      load_pid 123 s' = Inr (Some (items example_window)) \<and>
      requests s' = concat (map (frame_requests 123) frames)
        @ [Windowsize 123 1270 1014, Windowmove 123 1925 5]"
    by (simp add: example_window_def empty_state_def)
  with w g show ?thesis by blast
qed

theorem fullscreen_target_counterexample:
  "get_window_position far_env = Inr far_window \<and>
   get_screen_for_window far_env (X far_window) = Inr (1280, 1024, 1920) \<and>
   fullscreen far_env empty_state = Inl OverflowError"
proof -
  have w: "get_window_position far_env = Inr far_window"
    by (simp add: get_window_position_def far_env_def)
  have "get_screens far_env =
     Inr (Some \<lparr>width = 1920, height = 1080\<rparr>, [\<lparr>width = 1280, height = 1024\<rparr>])"
    by (simp add: get_screens_two_displays far_env_def)
  then have g: "get_screen_for_window far_env (X far_window) = Inr (1280, 1024, 1920)"
    by (simp add: get_screen_for_window_def far_window_def example_window_def)
  have y: "Y far_window - 5 = 25 * 2 ^ 1024"
    by (simp add: far_window_def)
  have small: "\<bar>1280 - 10 :: int\<bar> \<le> 2 ^ 996" "\<bar>WIDTH far_window\<bar> \<le> 2 ^ 996"
    "\<bar>1024 - 10 :: int\<bar> \<le> 2 ^ 996" "\<bar>HEIGHT far_window\<bar> \<le> 2 ^ 996"
    "\<bar>X far_window\<bar> \<le> 2 ^ 996" "\<bar>if (0::int) < 1920 then 1920 + 5 else (5::int)\<bar> \<le> 2 ^ 996"
    by (simp_all add: far_window_def example_window_def)
  have "fullscreen far_env empty_state = Inl OverflowError"
    unfolding fullscreen_call [OF w g]
    by (rule move_window_overflow_y [OF small]) (simp only: y truediv_overflow)
  with w g show ?thesis by blast
qed

lemma toggle_display_call:
  assumes "get_window_position e = Inr win"
    and "get_screens e = Inr (Some p, others)"
  shows "toggle_display e s =
       move_window (PyInt (WIDTH win)) (PyInt (HEIGHT win)) (WINDOW win)
         (PyInt (WIDTH win)) (PyInt (HEIGHT win)) (PyInt (X win)) (PyInt (Y win))
         (PyInt (if X win \<le> width p - 1 then X win + width p else X win - width p))
         (PyInt (Y win)) s"
  using assms by (simp add: toggle_display_def Let_def not_le [symmetric])

text \<open>
  C7. \<^verbatim>\<open>toggle_display\<close>, with a primary display of width \<open>P\<close>, calls the animator with the
  window's width, height and \<open>y\<close> as both the current and the target values and with the
  target \<open>x + P\<close> when \<open>x \<le> P - 1\<close> and \<open>x - P\<close> when \<open>x > P - 1\<close>. For values of magnitude
  at most \<open>2 ^ 996\<close> the animation completes and ends with the requests for exactly that
  position. The bound is needed: the running values of the animation are floats, and
  an int that no float holds raises \<^verbatim>\<open>OverflowError\<close>.
\<close>

theorem toggle_display_shift:
  assumes "get_window_position e = Inr win"
    and "get_screens e = Inr (Some p, others)"
  shows
    "toggle_display e s =
       move_window (PyInt (WIDTH win)) (PyInt (HEIGHT win)) (WINDOW win)
         (PyInt (WIDTH win)) (PyInt (HEIGHT win)) (PyInt (X win)) (PyInt (Y win))
         (PyInt (if X win \<le> width p - 1 then X win + width p else X win - width p))
         (PyInt (Y win)) s \<and>
     (\<bar>WIDTH win\<bar> \<le> 2 ^ 996 \<and> \<bar>HEIGHT win\<bar> \<le> 2 ^ 996 \<and> \<bar>X win\<bar> \<le> 2 ^ 996 \<and>
      \<bar>Y win\<bar> \<le> 2 ^ 996 \<and> \<bar>width p\<bar> \<le> 2 ^ 996 \<longrightarrow>
      (\<exists>frames. length frames = 25 \<and>
         toggle_display e s =
           Inr (s\<lparr>requests := requests s @ concat (map (frame_requests (WINDOW win)) frames)
             @ [Windowsize (WINDOW win) (WIDTH win) (HEIGHT win),
                Windowmove (WINDOW win)
                  (if X win \<le> width p - 1 then X win + width p else X win - width p)
                  (Y win)]\<rparr>)))"
proof -
  have call: "toggle_display e s =
       move_window (PyInt (WIDTH win)) (PyInt (HEIGHT win)) (WINDOW win)
         (PyInt (WIDTH win)) (PyInt (HEIGHT win)) (PyInt (X win)) (PyInt (Y win))
         (PyInt (if X win \<le> width p - 1 then X win + width p else X win - width p))
         (PyInt (Y win)) s"
    using assms by (simp add: toggle_display_def Let_def not_le [symmetric])
  have "\<exists>frames. length frames = 25 \<and>
         toggle_display e s =
           Inr (s\<lparr>requests := requests s @ concat (map (frame_requests (WINDOW win)) frames)
             @ [Windowsize (WINDOW win) (WIDTH win) (HEIGHT win),
                Windowmove (WINDOW win)
                  (if X win \<le> width p - 1 then X win + width p else X win - width p)
                  (Y win)]\<rparr>)"
    if b: "\<bar>WIDTH win\<bar> \<le> 2 ^ 996" "\<bar>HEIGHT win\<bar> \<le> 2 ^ 996" "\<bar>X win\<bar> \<le> 2 ^ 996"
      "\<bar>Y win\<bar> \<le> 2 ^ 996" "\<bar>width p\<bar> \<le> 2 ^ 996"
  proof -
    have x: "magnitude_le
        (PyInt (if X win \<le> width p - 1 then X win + width p else X win - width p)) (2 ^ 997)"
    proof (cases "X win \<le> width p - 1")
      case True
      then show ?thesis
        using int_magnitude_sum(1) [OF b(3) b(5)] by (simp only: if_True)
    next
      case False
      then show ?thesis
        using int_magnitude_sum(2) [OF b(3) b(5)] by (simp only: if_False)
    qed
    show ?thesis
      unfolding call
      by (rule move_window_ints
          [OF int_magnitude_sum(3) [OF b(1) b(1)] int_magnitude_sum(3) [OF b(2) b(2)]
              int_magnitude_sum(3) [OF b(1) b(1)] int_magnitude_sum(3) [OF b(2) b(2)]
              int_magnitude_sum(3) [OF b(3) b(3)] int_magnitude_sum(3) [OF b(4) b(4)]
              x int_magnitude_sum(3) [OF b(4) b(4)]])
  qed
  with call show ?thesis
    by blast
qed

theorem toggle_display_shift_witness:
  "get_window_position primary_env = Inr (example_window\<lparr>X := 100\<rparr>) \<and>
   get_screens primary_env =
     Inr (Some \<lparr>width = 1920, height = 1080\<rparr>, [\<lparr>width = 1280, height = 1024\<rparr>]) \<and>
   (\<exists>frames. length frames = 25 \<and>
      toggle_display primary_env empty_state =
        Inr \<lparr>cache_dir = None,
             requests = concat (map (frame_requests 123) frames)
               @ [Windowsize 123 800 600, Windowmove 123 2020 0]\<rparr>)"
proof -
  have w: "get_window_position primary_env = Inr (example_window\<lparr>X := 100\<rparr>)"
    by simp
  have g: "get_screens primary_env =
     Inr (Some \<lparr>width = 1920, height = 1080\<rparr>, [\<lparr>width = 1280, height = 1024\<rparr>])"
    by simp
  have b: "\<bar>WIDTH (example_window\<lparr>X := 100\<rparr>)\<bar> \<le> 2 ^ 996 \<and>
      \<bar>HEIGHT (example_window\<lparr>X := 100\<rparr>)\<bar> \<le> 2 ^ 996 \<and>
      \<bar>X (example_window\<lparr>X := 100\<rparr>)\<bar> \<le> 2 ^ 996 \<and>
      \<bar>Y (example_window\<lparr>X := 100\<rparr>)\<bar> \<le> 2 ^ 996 \<and>
      \<bar>width \<lparr>width = 1920, height = 1080\<rparr>\<bar> \<le> 2 ^ 996"
    by (simp add: example_window_def)
  from toggle_display_shift [OF w g, of empty_state] b
  have "\<exists>frames. length frames = 25 \<and>
         toggle_display primary_env empty_state =
           Inr (empty_state\<lparr>requests := requests empty_state
             @ concat (map (frame_requests (WINDOW (example_window\<lparr>X := 100\<rparr>))) frames)
             @ [Windowsize (WINDOW (example_window\<lparr>X := 100\<rparr>))
                  (WIDTH (example_window\<lparr>X := 100\<rparr>)) (HEIGHT (example_window\<lparr>X := 100\<rparr>)),
                Windowmove (WINDOW (example_window\<lparr>X := 100\<rparr>))
                  (if X (example_window\<lparr>X := 100\<rparr>) \<le> width \<lparr>width = 1920, height = 1080\<rparr> - 1
                   then X (example_window\<lparr>X := 100\<rparr>) + width \<lparr>width = 1920, height = 1080\<rparr>
                   else X (example_window\<lparr>X := 100\<rparr>) - width \<lparr>width = 1920, height = 1080\<rparr>)
                  (Y (example_window\<lparr>X := 100\<rparr>))]\<rparr>)"
    by blast
  then have "\<exists>frames. length frames = 25 \<and>
      toggle_display primary_env empty_state =
        Inr \<lparr>cache_dir = None,
             requests = concat (map (frame_requests 123) frames)
               @ [Windowsize 123 800 600, Windowmove 123 2020 0]\<rparr>"
    by (simp add: example_window_def empty_state_def)
  with w g show ?thesis by blast
qed

theorem toggle_display_shift_counterexample:
  "get_window_position high_env = Inr high_window \<and>
   get_screens high_env =
     Inr (Some \<lparr>width = 1920, height = 1080\<rparr>, [\<lparr>width = 1280, height = 1024\<rparr>]) \<and>
   toggle_display high_env empty_state = Inl OverflowError"
proof -
  have w: "get_window_position high_env = Inr high_window"
    by (simp add: get_window_position_def high_env_def)
  have g: "get_screens high_env =
     Inr (Some \<lparr>width = 1920, height = 1080\<rparr>, [\<lparr>width = 1280, height = 1024\<rparr>])"
    by (simp add: get_screens_two_displays high_env_def)
  have y: "Y high_window = 2 ^ 1024"
    by (simp add: high_window_def)
  have small: "\<bar>WIDTH high_window\<bar> \<le> 2 ^ 53" "\<bar>HEIGHT high_window\<bar> \<le> 2 ^ 53"
    "\<bar>X high_window\<bar> \<le> 2 ^ 996"
    "\<bar>if X high_window \<le> width \<lparr>width = 1920, height = 1080\<rparr> - 1
       then X high_window + width \<lparr>width = 1920, height = 1080\<rparr>
       else X high_window - width \<lparr>width = 1920, height = 1080\<rparr>\<bar> \<le> 2 ^ 996"
    by (simp_all add: high_window_def example_window_def)
  have o: "to_float (PyInt (Y high_window)) = Inl OverflowError"
    unfolding y by (rule to_float_overflow)
  have "toggle_display high_env empty_state = Inl OverflowError"
    unfolding toggle_display_call [OF w g]
    by (rule move_window_overflow_pass [OF small o])
  with w g show ?thesis by blast
qed

text \<open>
  C6. When the window and the displays can be queried, \<^verbatim>\<open>unscreen\<close> on a window id that
  has no cache file returns the state as it was: no request is issued and the cache is
  untouched. So does \<^verbatim>\<open>unscreen\<close> after \<^verbatim>\<open>clear_cache\<close>, and the action \<^verbatim>\<open>U\<close> after the
  action \<^verbatim>\<open>CC\<close>.
\<close>

theorem unscreen_cache_miss:
  assumes "get_window_position e = Inr win"
    and "get_screen_for_window e (X win) = Inr scr"
  shows
    "(no_record (WINDOW win) s \<longrightarrow> unscreen e s = Inr s) \<and>
     unscreen e (clear_cache s) = Inr (clear_cache s) \<and>
     bindE (main ''CC'' e s) (main ''U'' e) = Inr (clear_cache s)"
proof -
  have miss: "unscreen e t = Inr t" if "no_record (WINDOW win) t" for t
    using assms load_pid_no_record [OF that]
    by (cases scr) (simp add: unscreen_def Let_def)
  have "no_record (WINDOW win) (clear_cache s)"
    by (simp add: no_record_def clear_cache_def)
  then have "unscreen e (clear_cache s) = Inr (clear_cache s)"
    by (rule miss)
  then show ?thesis
    using miss by (simp add: main_def)
qed

theorem unscreen_cache_miss_witness:
  "get_window_position example_env = Inr example_window \<and>
   get_screen_for_window example_env (X example_window) = Inr (1280, 1024, 1920) \<and>
   no_record (WINDOW example_window) empty_state \<and>
   unscreen example_env empty_state = Inr empty_state \<and>
   bindE (main ''CC'' example_env empty_state) (main ''U'' example_env) =
     Inr (clear_cache empty_state)"
proof -
  have w: "get_window_position example_env = Inr example_window"
    by simp
  have g: "get_screen_for_window example_env (X example_window) = Inr (1280, 1024, 1920)"
    by (simp add: example_window_def)
  have n: "no_record (WINDOW example_window) empty_state"
    by (simp add: no_record_def empty_state_def)
  from unscreen_cache_miss [OF w g, of empty_state] n w g show ?thesis
    by blast
qed

text \<open>
  C8. A connected display is followed by the mode line \<^verbatim>\<open>1920x1080i 60.00*+\<close>: the first
  token holds an \<^verbatim>\<open>x\<close> but its second piece is no int, so \<^verbatim>\<open>get_screens\<close> raises
  \<^verbatim>\<open>ValueError\<close> instead of leaving the display out.
\<close>

theorem get_screens_interlaced:
  "get_screens \<lparr>xdotool = Some example_window, xrandr = Some interlaced\<rparr> = Inl ValueError"
  by (simp add: get_screens_def scan_interlaced)

text \<open>
  What the guards of the loop do leave out: a connected display that is the last line,
  or whose next line is blank or starts with a token without \<^verbatim>\<open>x\<close>.
\<close>

lemma scan_screens_skip:
  assumes "py_in '' connected'' line"
    and "case rest of [] \<Rightarrow> True
         | next_line # _ \<Rightarrow>
             (case split (strip next_line) of [] \<Rightarrow> True | res_str # _ \<Rightarrow> CHR ''x'' \<notin> set res_str)"
  shows "scan_screens (line # rest) primary others = scan_screens rest primary others"
proof (cases rest)
  case Nil
  then show ?thesis
    using assms(1) by (subst scan_screens.simps) (simp add: Let_def del: scan_screens.simps)
next
  case (Cons next_line more)
  show ?thesis
  proof (cases "split (strip next_line)")
    case Nil
    then show ?thesis
      using assms(1) Cons
      by (subst scan_screens.simps) (simp add: Let_def del: scan_screens.simps)
  next
    case (Cons res_str tokens)
    with assms(2) \<open>rest = next_line # more\<close> have "CHR ''x'' \<notin> set res_str"
      by simp
    with Cons show ?thesis
      using assms(1) \<open>rest = next_line # more\<close>
      by (subst scan_screens.simps) (simp add: Let_def del: scan_screens.simps)
  qed
qed

text \<open>
  C9. When no display is marked primary, \<^verbatim>\<open>get_screen_for_window\<close> answers 1920 by 1080
  with base offset 0, and \<^verbatim>\<open>direction\<close>, \<^verbatim>\<open>fullscreen\<close>, \<^verbatim>\<open>unscreen\<close> and
  \<^verbatim>\<open>toggle_fullscreen\<close> act as they would with a lone primary display of 1920 by 1080.
  \<^verbatim>\<open>toggle_display\<close> does not: it returns without a request.
\<close>

theorem no_primary_fallback:
  assumes "get_screens e = Inr (None, others)"
  shows
    "get_screen_for_window e x_pos = Inr (1920, 1080, 0) \<and>
     direction direction_code e s = direction direction_code (e\<lparr>xrandr := Some default_display\<rparr>) s \<and>
     fullscreen e s = fullscreen (e\<lparr>xrandr := Some default_display\<rparr>) s \<and>
     unscreen e s = unscreen (e\<lparr>xrandr := Some default_display\<rparr>) s \<and>
     toggle_fullscreen e s = toggle_fullscreen (e\<lparr>xrandr := Some default_display\<rparr>) s \<and>
     toggle_display e s = bindE (get_window_position e) (\<lambda>win. Inr s)"
proof -
  have a: "get_screen_for_window e x = Inr (1920, 1080, 0)" for x
    using assms by (simp add: get_screen_for_window_def)
  have b: "get_screen_for_window (e\<lparr>xrandr := Some default_display\<rparr>) x = Inr (1920, 1080, 0)" for x
    by (simp add: get_screen_for_window_def)
  have f: "fullscreen e s = fullscreen (e\<lparr>xrandr := Some default_display\<rparr>) s"
    unfolding fullscreen_def a b get_window_position_xrandr by (rule refl)
  have u: "unscreen e s = unscreen (e\<lparr>xrandr := Some default_display\<rparr>) s"
    unfolding unscreen_def a b get_window_position_xrandr by (rule refl)
  have d: "direction direction_code e s =
      direction direction_code (e\<lparr>xrandr := Some default_display\<rparr>) s"
    unfolding direction_def a b get_window_position_xrandr by (rule refl)
  have tf: "toggle_fullscreen e s = toggle_fullscreen (e\<lparr>xrandr := Some default_display\<rparr>) s"
    unfolding toggle_fullscreen_def a b get_window_position_xrandr f [symmetric] u [symmetric]
    by (rule refl)
  have td: "toggle_display e s = bindE (get_window_position e) (\<lambda>win. Inr s)"
    unfolding toggle_display_def assms by simp
  from a [of x_pos] d f u tf td show ?thesis
    by (intro conjI)
qed

theorem no_primary_fallback_witness:
  "get_screens no_primary_env = Inr (None, [\<lparr>width = 1280, height = 1024\<rparr>]) \<and>
   get_screen_for_window no_primary_env 100 = Inr (1920, 1080, 0) \<and>
   fullscreen no_primary_env empty_state =
     fullscreen (no_primary_env\<lparr>xrandr := Some default_display\<rparr>) empty_state \<and>
   toggle_display no_primary_env empty_state = Inr empty_state"
proof -
  have g: "get_screens no_primary_env = Inr (None, [\<lparr>width = 1280, height = 1024\<rparr>])"
    by simp
  have t: "bindE (get_window_position no_primary_env) (\<lambda>win. Inr empty_state) = Inr empty_state"
    by simp
  from no_primary_fallback [OF g, of 100 "''N''" empty_state] g show ?thesis
    unfolding t by blast
qed

theorem no_primary_fallback_counterexample:
  "get_screens no_primary_env = Inr (None, [\<lparr>width = 1280, height = 1024\<rparr>]) \<and>
   toggle_display no_primary_env empty_state = Inr empty_state \<and>
   toggle_display (no_primary_env\<lparr>xrandr := Some default_display\<rparr>) empty_state \<noteq> Inr empty_state"
proof -
  have 1: "toggle_display no_primary_env empty_state = Inr empty_state"
    unfolding toggle_display_def get_screens_no_primary get_window_position_example by simp
  have 2: "toggle_display (no_primary_env\<lparr>xrandr := Some default_display\<rparr>) empty_state
      \<noteq> Inr empty_state"
    unfolding toggle_display_def get_screens_default get_window_position_xrandr
      get_window_position_example
    by (simp only: bindE_Inr prod.case option.case Let_def move_window_issues not_False_eq_True)
  from 1 2 get_screens_no_primary show ?thesis by blast
qed

lemma getitem_items:
  "getitem (items win) ''WIDTH'' = Inr (WIDTH win)"
  "getitem (items win) ''HEIGHT'' = Inr (HEIGHT win)"
  "getitem (items win) ''X'' = Inr (X win)"
  "getitem (items win) ''Y'' = Inr (Y win)"
  by (simp_all add: getitem_def items_def)

lemma items_not_empty: "items win \<noteq> []"
  by (simp add: items_def)

lemma unscreen_call:
  assumes "get_window_position e = Inr win'"
    and "get_screen_for_window e (X win') = Inr (screen_w, screen_h, base_x_offset)"
    and "load_pid (WINDOW win') s = Inr (Some (items win))"
  shows "unscreen e s =
       move_window (PyInt (WIDTH win)) (PyInt (HEIGHT win)) (WINDOW win')
         (PyInt (WIDTH win' - 10)) (PyInt (HEIGHT win' - 10))
         (PyInt (if 0 < base_x_offset then base_x_offset else 5)) (PyInt 5)
         (PyInt (X win)) (PyInt (Y win)) s"
  using assms by (simp add: unscreen_def Let_def getitem_items items_not_empty)

text \<open>
  C5. \<^verbatim>\<open>fullscreen\<close> on a window and then \<^verbatim>\<open>unscreen\<close> on the same window id, whatever
  geometry the window has by then, both complete when the values have magnitude at most
  \<open>2 ^ 996\<close>, and the last two requests of \<^verbatim>\<open>unscreen\<close> resize and move the window to the
  width, height, \<open>x\<close> and \<open>y\<close> it had before \<^verbatim>\<open>fullscreen\<close>.
\<close>

theorem fullscreen_then_unscreen:
  assumes "get_window_position e = Inr win"
    and "get_screen_for_window e (X win) = Inr (screen_w, screen_h, base_x_offset)"
    and "\<bar>screen_w\<bar> \<le> 2 ^ 996" "\<bar>screen_h\<bar> \<le> 2 ^ 996" "\<bar>base_x_offset\<bar> \<le> 2 ^ 996"
      "\<bar>WIDTH win\<bar> \<le> 2 ^ 996" "\<bar>HEIGHT win\<bar> \<le> 2 ^ 996" "\<bar>X win\<bar> \<le> 2 ^ 996" "\<bar>Y win\<bar> \<le> 2 ^ 996"
    and "get_window_position e' = Inr win'"
    and "WINDOW win' = WINDOW win"
    and "get_screen_for_window e' (X win') = Inr (screen_w', screen_h', base_x_offset')"
    and "\<bar>WIDTH win'\<bar> \<le> 2 ^ 996" "\<bar>HEIGHT win'\<bar> \<le> 2 ^ 996" "\<bar>base_x_offset'\<bar> \<le> 2 ^ 996"
  shows "\<exists>s1 s2 frames. fullscreen e s = Inr s1 \<and> unscreen e' s1 = Inr s2 \<and>
     length frames = 25 \<and>
     requests s2 = requests s1 @ concat (map (frame_requests (WINDOW win)) frames)
       @ [Windowsize (WINDOW win) (WIDTH win) (HEIGHT win),
          Windowmove (WINDOW win) (X win) (Y win)]"
proof -
  from fullscreen_runs [OF assms(1-9), of s] obtain s1 where
    f: "fullscreen e s = Inr s1" and
    l: "load_pid (WINDOW win) s1 = Inr (Some (items win))"
    by blast
  have l': "load_pid (WINDOW win') s1 = Inr (Some (items win))"
    using l assms(11) by simp
  note call = unscreen_call [OF assms(10) assms(12) l']
  have c: "\<bar>10 :: int\<bar> \<le> 2 ^ 996" "\<bar>5 :: int\<bar> \<le> 2 ^ 996" by simp_all
  have x: "magnitude_le (PyInt (if 0 < base_x_offset' then base_x_offset' else 5)) (2 ^ 997)"
  proof (cases "0 < base_x_offset'")
    case True
    then show ?thesis
      using int_magnitude_sum(3) [OF assms(15) c(2)] by (simp only: if_True)
  next
    case False
    then show ?thesis
      using int_magnitude_sum(3) [OF c(2) c(2)] by (simp only: if_False)
  qed
  from move_window_ints
    [OF int_magnitude_sum(3) [OF assms(6) c(1)] int_magnitude_sum(3) [OF assms(7) c(1)]
        int_magnitude_sum(2) [OF assms(13) c(1)] int_magnitude_sum(2) [OF assms(14) c(1)]
        x int_magnitude_sum(3) [OF c(2) c(2)]
        int_magnitude_sum(3) [OF assms(8) c(1)] int_magnitude_sum(3) [OF assms(9) c(1)],
      of "WINDOW win'" s1]
  obtain frames where len: "length frames = 25" and
    u: "unscreen e' s1 = Inr (s1\<lparr>requests := requests s1
          @ concat (map (frame_requests (WINDOW win')) frames)
          @ [Windowsize (WINDOW win') (WIDTH win) (HEIGHT win),
             Windowmove (WINDOW win') (X win) (Y win)]\<rparr>)"
    unfolding call by blast
  show ?thesis
    using f u len assms(11) by (intro exI conjI) (assumption, assumption, assumption, simp)
qed

theorem fullscreen_then_unscreen_witness:
  "get_window_position example_env = Inr example_window \<and>
   get_screen_for_window example_env (X example_window) = Inr (1280, 1024, 1920) \<and>
   (\<exists>s1 s2 frames. fullscreen example_env empty_state = Inr s1 \<and>
      unscreen maximised_env s1 = Inr s2 \<and> length frames = 25 \<and>
      requests s2 = requests s1 @ concat (map (frame_requests 123) frames)
        @ [Windowsize 123 800 600, Windowmove 123 2000 0])"
proof -
  let ?win' = "example_window\<lparr>X := 1925, Y := 5, WIDTH := 1270, HEIGHT := 1014\<rparr>"
  have w': "get_window_position maximised_env = Inr ?win'"
    by (simp add: get_window_position_def maximised_env_def)
  have i': "WINDOW ?win' = WINDOW example_window"
    by simp
  have "get_screens maximised_env =
     Inr (Some \<lparr>width = 1920, height = 1080\<rparr>, [\<lparr>width = 1280, height = 1024\<rparr>])"
    by (simp add: get_screens_two_displays maximised_env_def)
  then have g': "get_screen_for_window maximised_env (X ?win') = Inr (1280, 1024, 1920)"
    by (simp add: get_screen_for_window_def)
  have b': "\<bar>WIDTH ?win'\<bar> \<le> 2 ^ 996" "\<bar>HEIGHT ?win'\<bar> \<le> 2 ^ 996"
    by simp_all
  have w: "get_window_position example_env = Inr example_window"
    by simp
  have g: "get_screen_for_window example_env (X example_window) = Inr (1280, 1024, 1920)"
    by (simp add: example_window_def)
  have b: "\<bar>1280 :: int\<bar> \<le> 2 ^ 996" "\<bar>1024 :: int\<bar> \<le> 2 ^ 996" "\<bar>1920 :: int\<bar> \<le> 2 ^ 996"
      "\<bar>WIDTH example_window\<bar> \<le> 2 ^ 996" "\<bar>HEIGHT example_window\<bar> \<le> 2 ^ 996"
      "\<bar>X example_window\<bar> \<le> 2 ^ 996" "\<bar>Y example_window\<bar> \<le> 2 ^ 996"
    by (simp_all add: example_window_def)
  from fullscreen_then_unscreen [OF w g b w' i' g' b' b(3), of empty_state]
  have "\<exists>s1 s2 frames. fullscreen example_env empty_state = Inr s1 \<and>
     unscreen maximised_env s1 = Inr s2 \<and> length frames = 25 \<and>
     requests s2 = requests s1 @ concat (map (frame_requests (WINDOW example_window)) frames)
       @ [Windowsize (WINDOW example_window) (WIDTH example_window) (HEIGHT example_window),
          Windowmove (WINDOW example_window) (X example_window) (Y example_window)]" .
  then have "\<exists>s1 s2 frames. fullscreen example_env empty_state = Inr s1 \<and>
      unscreen maximised_env s1 = Inr s2 \<and> length frames = 25 \<and>
      requests s2 = requests s1 @ concat (map (frame_requests 123) frames)
        @ [Windowsize 123 800 600, Windowmove 123 2000 0]"
    by (simp add: example_window_def)
  with w g show ?thesis by blast
qed


theorem fullscreen_then_unscreen_counterexample:
  "fullscreen far_env empty_state = Inl OverflowError \<and>
   unscreen far_env (save_pid (WINDOW far_window) (items far_window) empty_state) =
     Inl OverflowError"
proof -
  have w: "get_window_position far_env = Inr far_window"
    by (simp add: get_window_position_def far_env_def)
  have "get_screens far_env =
     Inr (Some \<lparr>width = 1920, height = 1080\<rparr>, [\<lparr>width = 1280, height = 1024\<rparr>])"
    by (simp add: get_screens_two_displays far_env_def)
  then have g: "get_screen_for_window far_env (X far_window) = Inr (1280, 1024, 1920)"
    by (simp add: get_screen_for_window_def far_window_def example_window_def)
  have y: "Y far_window - 5 = 25 * 2 ^ 1024" "5 - Y far_window = - (25 * 2 ^ 1024)"
    by (simp_all add: far_window_def)
  have small: "\<bar>1280 - 10 :: int\<bar> \<le> 2 ^ 996" "\<bar>1024 - 10 :: int\<bar> \<le> 2 ^ 996"
    "\<bar>WIDTH far_window\<bar> \<le> 2 ^ 996" "\<bar>HEIGHT far_window\<bar> \<le> 2 ^ 996"
    "\<bar>X far_window\<bar> \<le> 2 ^ 996" "\<bar>if (0::int) < 1920 then 1920 + 5 else (5::int)\<bar> \<le> 2 ^ 996"
    "\<bar>WIDTH far_window - 10\<bar> \<le> 2 ^ 996" "\<bar>HEIGHT far_window - 10\<bar> \<le> 2 ^ 996"
    "\<bar>if (0::int) < 1920 then 1920 else (5::int)\<bar> \<le> 2 ^ 996"
    by (simp_all add: far_window_def example_window_def)
  have f: "fullscreen far_env empty_state = Inl OverflowError"
    unfolding fullscreen_call [OF w g]
    by (rule move_window_overflow_y [OF small(1) small(3) small(2) small(4) small(5) small(6)])
      (simp only: y truediv_overflow)
  have l: "load_pid (WINDOW far_window)
      (save_pid (WINDOW far_window) (items far_window) empty_state) = Inr (Some (items far_window))"
    by (rule load_pid_save_pid)
  have u: "unscreen far_env (save_pid (WINDOW far_window) (items far_window) empty_state) =
     Inl OverflowError"
    unfolding unscreen_call [OF w g l]
    by (rule move_window_overflow_y [OF small(3) small(7) small(4) small(8) small(9) small(5)])
      (simp only: y truediv_overflow)
  from f u show ?thesis by blast
qed

lemma half_exact:
  assumes "\<bar>n\<bar> < 2 ^ 53"
  shows "nearest_double (of_int n / 2) = of_int n / 2"
    and "\<not> out_of_range (of_int n / 2)"
proof -
  show "nearest_double (of_int n / 2) = of_int n / 2"
    using assms by (intro nearest_double_exact [of _ n "- 1"]) simp_all
  have "\<bar>of_int n :: rat\<bar> \<le> 2 ^ 53"
    using assms by (metis less_imp_le of_int_abs of_int_le_numeral_power_cancel_iff)
  then have "\<bar>of_int n / 2 :: rat\<bar> \<le> 2 ^ 53"
    by simp
  then show "\<not> out_of_range (of_int n / 2)"
    by (rule not_out_of_range) simp
qed

lemma truediv_2:
  assumes "\<bar>n\<bar> < 2 ^ 53"
  shows "py_truediv (PyInt n) (PyInt 2) = Inr (PyFloat (Fin (of_int n / 2)))"
proof -
  note h = half_exact [OF assms]
  have q: "(of_int n :: rat) / of_int 2 = of_int n / 2" by simp
  show ?thesis
    unfolding py_truediv.simps q Let_def h(1) using h(2) by simp
qed

lemma float_of_rat_half:
  assumes "\<bar>n\<bar> < 2 ^ 53"
  shows "float_of_rat (of_int n / 2) = Fin (of_int n / 2)"
proof -
  note h = half_exact [OF assms]
  show ?thesis
    unfolding float_of_rat_def Let_def h(1) using h(2) by simp
qed

lemma add_int_half:
  assumes "\<bar>a\<bar> \<le> 2 ^ 50" "\<bar>n\<bar> \<le> 2 ^ 51"
  shows "py_add (PyInt a) (PyFloat (Fin (of_int n / 2))) = Inr (PyFloat (Fin (of_int a + of_int n / 2)))"
    and "py_add (PyFloat (Fin (of_int n / 2))) (PyInt a) = Inr (PyFloat (Fin (of_int n / 2 + of_int a)))"
proof -
  have a: "\<bar>a\<bar> \<le> 2 ^ 53" using assms(1) by simp
  have "\<bar>2 * a + n\<bar> < 2 ^ 53" using assms by simp
  from float_of_rat_half [OF this]
  have s: "float_of_rat (of_int a + of_int n / 2) = Fin (of_int a + of_int n / 2)"
    by (simp add: add_divide_distrib)
  then have s': "float_of_rat (of_int n / 2 + of_int a) = Fin (of_int n / 2 + of_int a)"
    by (simp add: add.commute)
  show "py_add (PyInt a) (PyFloat (Fin (of_int n / 2))) = Inr (PyFloat (Fin (of_int a + of_int n / 2)))"
    unfolding py_add.simps to_float_int_exact [OF a] to_float.simps(2) bindE_Inr float_add.simps s
    by (rule refl)
  show "py_add (PyFloat (Fin (of_int n / 2))) (PyInt a) = Inr (PyFloat (Fin (of_int n / 2 + of_int a)))"
    unfolding py_add.simps to_float_int_exact [OF a] to_float.simps(2) bindE_Inr float_add.simps s'
    by (rule refl)
qed

lemma direction_call:
  assumes "get_window_position e = Inr win"
    and "get_screen_for_window e (X win) = Inr (screen_w, screen_h, base_x_offset)"
    and "direction_target direction_code win screen_w screen_h base_x_offset =
           Inr (target_w, target_h, target_x, target_y)"
  shows "direction direction_code e s =
           move_window target_w target_h (WINDOW win)
             (PyInt (WIDTH win)) (PyInt (HEIGHT win)) (PyInt (X win)) (PyInt (Y win))
             target_x target_y s"
  using assms by (simp add: direction_def)


text \<open>
  C3. For screen and window sizes of magnitude at most \<open>2 ^ 50\<close>, the target rectangle
  \<open>(width, height, x, y)\<close> that \<^verbatim>\<open>direction\<close> hands to the animator is the one of the
  table, with exact halves: \<^verbatim>\<open>N\<close> and \<^verbatim>\<open>S\<close> are full width and half height at \<open>y = 0\<close> and
  \<open>y = screen_h / 2\<close>; \<^verbatim>\<open>E\<close> and \<^verbatim>\<open>W\<close> are half width and full height at
  \<open>x = base + screen_w / 2\<close> and \<open>x = base\<close>; the four corners are quarters; \<^verbatim>\<open>C\<close> keeps the
  size of the window at \<open>x = (screen_w - WIDTH) / 2 + base\<close>, \<open>y = (screen_h - HEIGHT) / 2\<close>.
  The two half heights add up to \<open>screen_h\<close> and the two half widths to \<open>screen_w\<close>.
\<close>

theorem direction_targets:
  assumes "get_window_position e = Inr win"
    and "get_screen_for_window e (X win) = Inr (screen_w, screen_h, base_x_offset)"
    and "\<bar>screen_w\<bar> \<le> 2 ^ 50" "\<bar>screen_h\<bar> \<le> 2 ^ 50" "\<bar>base_x_offset\<bar> \<le> 2 ^ 50"
    and "\<bar>WIDTH win\<bar> \<le> 2 ^ 50" "\<bar>HEIGHT win\<bar> \<le> 2 ^ 50"
  shows
    "direction direction_code e s =
       bindE (direction_target direction_code win screen_w screen_h base_x_offset)
         (\<lambda>(target_w, target_h, target_x, target_y).
            move_window target_w target_h (WINDOW win)
              (PyInt (WIDTH win)) (PyInt (HEIGHT win)) (PyInt (X win)) (PyInt (Y win))
              target_x target_y s) \<and>
     direction_target ''N'' win screen_w screen_h base_x_offset =
       Inr (PyInt screen_w, PyFloat (Fin (of_int screen_h / 2)), PyInt base_x_offset, PyInt 0) \<and>
     direction_target ''S'' win screen_w screen_h base_x_offset =
       Inr (PyInt screen_w, PyFloat (Fin (of_int screen_h / 2)), PyInt base_x_offset,
            PyFloat (Fin (of_int screen_h / 2))) \<and>
     direction_target ''E'' win screen_w screen_h base_x_offset =
       Inr (PyFloat (Fin (of_int screen_w / 2)), PyInt screen_h,
            PyFloat (Fin (of_int base_x_offset + of_int screen_w / 2)), PyInt 0) \<and>
     direction_target ''W'' win screen_w screen_h base_x_offset =
       Inr (PyFloat (Fin (of_int screen_w / 2)), PyInt screen_h, PyInt base_x_offset, PyInt 0) \<and>
     direction_target ''NE'' win screen_w screen_h base_x_offset =
       Inr (PyFloat (Fin (of_int screen_w / 2)), PyFloat (Fin (of_int screen_h / 2)),
            PyFloat (Fin (of_int base_x_offset + of_int screen_w / 2)), PyInt 0) \<and>
     direction_target ''NW'' win screen_w screen_h base_x_offset =
       Inr (PyFloat (Fin (of_int screen_w / 2)), PyFloat (Fin (of_int screen_h / 2)),
            PyInt base_x_offset, PyInt 0) \<and>
     direction_target ''SE'' win screen_w screen_h base_x_offset =
       Inr (PyFloat (Fin (of_int screen_w / 2)), PyFloat (Fin (of_int screen_h / 2)),
            PyFloat (Fin (of_int base_x_offset + of_int screen_w / 2)),
            PyFloat (Fin (of_int screen_h / 2))) \<and>
     direction_target ''SW'' win screen_w screen_h base_x_offset =
       Inr (PyFloat (Fin (of_int screen_w / 2)), PyFloat (Fin (of_int screen_h / 2)),
            PyInt base_x_offset, PyFloat (Fin (of_int screen_h / 2))) \<and>
     direction_target ''C'' win screen_w screen_h base_x_offset =
       Inr (PyInt (WIDTH win), PyInt (HEIGHT win),
            PyFloat (Fin (of_int (screen_w - WIDTH win) / 2 + of_int base_x_offset)),
            PyFloat (Fin (of_int (screen_h - HEIGHT win) / 2))) \<and>
     py_add (PyFloat (Fin (of_int screen_h / 2))) (PyFloat (Fin (of_int screen_h / 2))) =
       Inr (PyFloat (Fin (of_int screen_h))) \<and>
     py_add (PyFloat (Fin (of_int screen_w / 2))) (PyFloat (Fin (of_int screen_w / 2))) =
       Inr (PyFloat (Fin (of_int screen_w)))"
proof -
  have sw: "\<bar>screen_w\<bar> < 2 ^ 53" "\<bar>screen_w\<bar> \<le> 2 ^ 51" "\<bar>screen_w\<bar> \<le> 2 ^ 53"
    and sh: "\<bar>screen_h\<bar> < 2 ^ 53" "\<bar>screen_h\<bar> \<le> 2 ^ 53"
    and cw: "\<bar>screen_w - WIDTH win\<bar> < 2 ^ 53" "\<bar>screen_w - WIDTH win\<bar> \<le> 2 ^ 51"
    and ch: "\<bar>screen_h - HEIGHT win\<bar> < 2 ^ 53"
    using assms(3-7) by simp_all
  note hw = truediv_2 [OF sw(1)] and hh = truediv_2 [OF sh(1)]
    and hcw = truediv_2 [OF cw(1)] and hch = truediv_2 [OF ch]
    and ex = add_int_half(1) [OF assms(5) sw(2)]
    and cx = add_int_half(2) [OF assms(5) cw(2)]
  have call: "direction direction_code e s =
       bindE (direction_target direction_code win screen_w screen_h base_x_offset)
         (\<lambda>(target_w, target_h, target_x, target_y).
            move_window target_w target_h (WINDOW win)
              (PyInt (WIDTH win)) (PyInt (HEIGHT win)) (PyInt (X win)) (PyInt (Y win))
              target_x target_y s)"
    using assms(1,2) by (simp add: direction_def)
  have n: "direction_target ''N'' win screen_w screen_h base_x_offset =
       Inr (PyInt screen_w, PyFloat (Fin (of_int screen_h / 2)), PyInt base_x_offset, PyInt 0)"
    unfolding direction_target_def hw hh bindE_Inr by simp
  have s: "direction_target ''S'' win screen_w screen_h base_x_offset =
       Inr (PyInt screen_w, PyFloat (Fin (of_int screen_h / 2)), PyInt base_x_offset,
            PyFloat (Fin (of_int screen_h / 2)))"
    unfolding direction_target_def hw hh bindE_Inr by simp
  have e: "direction_target ''E'' win screen_w screen_h base_x_offset =
       Inr (PyFloat (Fin (of_int screen_w / 2)), PyInt screen_h,
            PyFloat (Fin (of_int base_x_offset + of_int screen_w / 2)), PyInt 0)"
    unfolding direction_target_def hw hh bindE_Inr ex by simp
  have w: "direction_target ''W'' win screen_w screen_h base_x_offset =
       Inr (PyFloat (Fin (of_int screen_w / 2)), PyInt screen_h, PyInt base_x_offset, PyInt 0)"
    unfolding direction_target_def hw hh bindE_Inr by simp
  have ne: "direction_target ''NE'' win screen_w screen_h base_x_offset =
       Inr (PyFloat (Fin (of_int screen_w / 2)), PyFloat (Fin (of_int screen_h / 2)),
            PyFloat (Fin (of_int base_x_offset + of_int screen_w / 2)), PyInt 0)"
    unfolding direction_target_def hw hh bindE_Inr ex by simp
  have nw: "direction_target ''NW'' win screen_w screen_h base_x_offset =
       Inr (PyFloat (Fin (of_int screen_w / 2)), PyFloat (Fin (of_int screen_h / 2)),
            PyInt base_x_offset, PyInt 0)"
    unfolding direction_target_def hw hh bindE_Inr by simp
  have se: "direction_target ''SE'' win screen_w screen_h base_x_offset =
       Inr (PyFloat (Fin (of_int screen_w / 2)), PyFloat (Fin (of_int screen_h / 2)),
            PyFloat (Fin (of_int base_x_offset + of_int screen_w / 2)),
            PyFloat (Fin (of_int screen_h / 2)))"
    unfolding direction_target_def hw hh bindE_Inr ex by simp
  have sw': "direction_target ''SW'' win screen_w screen_h base_x_offset =
       Inr (PyFloat (Fin (of_int screen_w / 2)), PyFloat (Fin (of_int screen_h / 2)),
            PyInt base_x_offset, PyFloat (Fin (of_int screen_h / 2)))"
    unfolding direction_target_def hw hh bindE_Inr by simp
  have c: "direction_target ''C'' win screen_w screen_h base_x_offset =
       Inr (PyInt (WIDTH win), PyInt (HEIGHT win),
            PyFloat (Fin (of_int (screen_w - WIDTH win) / 2 + of_int base_x_offset)),
            PyFloat (Fin (of_int (screen_h - HEIGHT win) / 2)))"
    unfolding direction_target_def hw hh hcw hch bindE_Inr cx by simp
  have fl: "float_of_rat (of_int v) = Fin (of_int v)" if "\<bar>v\<bar> \<le> 2 ^ 53" for v
    unfolding float_of_rat_def Let_def int_exact [OF that]
    using not_out_of_range_int [OF that] by simp
  have sumh: "py_add (PyFloat (Fin (of_int screen_h / 2))) (PyFloat (Fin (of_int screen_h / 2))) =
       Inr (PyFloat (Fin (of_int screen_h)))"
  proof -
    have "(of_int screen_h :: rat) / 2 + of_int screen_h / 2 = of_int screen_h" by simp
    then show ?thesis
      unfolding py_add.simps to_float.simps(2) bindE_Inr float_add.simps
      by (simp only: fl [OF sh(2)])
  qed
  have sumw: "py_add (PyFloat (Fin (of_int screen_w / 2))) (PyFloat (Fin (of_int screen_w / 2))) =
       Inr (PyFloat (Fin (of_int screen_w)))"
  proof -
    have "(of_int screen_w :: rat) / 2 + of_int screen_w / 2 = of_int screen_w" by simp
    then show ?thesis
      unfolding py_add.simps to_float.simps(2) bindE_Inr float_add.simps
      by (simp only: fl [OF sw(3)])
  qed
  from call n s e w ne nw se sw' c sumh sumw show ?thesis
    by (intro conjI)
qed


theorem direction_targets_witness:
  "get_window_position primary_env = Inr (example_window\<lparr>X := 100\<rparr>) \<and>
   get_screen_for_window primary_env (X (example_window\<lparr>X := 100\<rparr>)) = Inr (1920, 1080, 0) \<and>
   \<bar>1920 :: int\<bar> \<le> 2 ^ 50 \<and>
   direction_target ''N'' (example_window\<lparr>X := 100\<rparr>) 1920 1080 0 =
     Inr (PyInt 1920, PyFloat (Fin 540), PyInt 0, PyInt 0) \<and>
   direction_target ''SE'' (example_window\<lparr>X := 100\<rparr>) 1920 1080 0 =
     Inr (PyFloat (Fin 960), PyFloat (Fin 540), PyFloat (Fin 960), PyFloat (Fin 540)) \<and>
   direction_target ''C'' (example_window\<lparr>X := 100\<rparr>) 1920 1080 0 =
     Inr (PyInt 800, PyInt 600, PyFloat (Fin 560), PyFloat (Fin 240))"
proof -
  have w: "get_window_position primary_env = Inr (example_window\<lparr>X := 100\<rparr>)"
    by simp
  have g: "get_screen_for_window primary_env (X (example_window\<lparr>X := 100\<rparr>)) = Inr (1920, 1080, 0)"
    by simp
  have b: "\<bar>1920 :: int\<bar> \<le> 2 ^ 50" "\<bar>1080 :: int\<bar> \<le> 2 ^ 50" "\<bar>0 :: int\<bar> \<le> 2 ^ 50"
    "\<bar>WIDTH (example_window\<lparr>X := 100\<rparr>)\<bar> \<le> 2 ^ 50"
    "\<bar>HEIGHT (example_window\<lparr>X := 100\<rparr>)\<bar> \<le> 2 ^ 50"
    by (simp_all add: example_window_def)
  from direction_targets [OF w g b, of "''N''" empty_state] w g b(1) show ?thesis
    by (simp add: example_window_def)
qed

theorem direction_targets_counterexample:
  "direction_target ''N'' example_window (2 ^ 53 + 1) (2 ^ 53 + 1) 0 =
     Inr (PyInt (2 ^ 53 + 1), PyFloat (Fin (2 ^ 52)), PyInt 0, PyInt 0) \<and>
   direction_target ''S'' example_window (2 ^ 53 + 1) (2 ^ 53 + 1) 0 =
     Inr (PyInt (2 ^ 53 + 1), PyFloat (Fin (2 ^ 52)), PyInt 0, PyFloat (Fin (2 ^ 52))) \<and>
   py_add (PyFloat (Fin (2 ^ 52))) (PyFloat (Fin (2 ^ 52))) = Inr (PyFloat (Fin (2 ^ 53))) \<and>
   (2 ^ 53 :: rat) \<noteq> of_int (2 ^ 53 + 1)"
proof -
  have e: "float_exponent (9007199254740993 / 2) = 0"
    by (rule float_exponent_eq) simp_all
  have f: "\<lfloor>9007199254740993 / 2 :: rat\<rfloor> = 4503599627370496"
    by (rule floor_unique) simp_all
  have r: "round_half_even (9007199254740993 / 2) = 4503599627370496"
    unfolding round_half_even_def Let_def f by simp
  have nd: "nearest_double (9007199254740993 / 2) = 4503599627370496"
    unfolding nearest_double_def Let_def e by (simp add: r)
  have "\<not> out_of_range 4503599627370496"
    by (rule not_out_of_range [of _ 53]) simp_all
  then have h: "py_truediv (PyInt (2 ^ 53 + 1)) (PyInt 2) = Inr (PyFloat (Fin (2 ^ 52)))"
    by (simp add: Let_def nd)
  have n: "direction_target ''N'' example_window (2 ^ 53 + 1) (2 ^ 53 + 1) 0 =
     Inr (PyInt (2 ^ 53 + 1), PyFloat (Fin (2 ^ 52)), PyInt 0, PyInt 0)"
    unfolding direction_target_def h bindE_Inr by simp
  have s: "direction_target ''S'' example_window (2 ^ 53 + 1) (2 ^ 53 + 1) 0 =
     Inr (PyInt (2 ^ 53 + 1), PyFloat (Fin (2 ^ 52)), PyInt 0, PyFloat (Fin (2 ^ 52)))"
    unfolding direction_target_def h bindE_Inr by simp
  have nd53: "nearest_double (2 ^ 53) = 2 ^ 53"
    using nearest_double_exact [of "2 ^ 53" 1 53] by simp
  have "\<not> out_of_range (2 ^ 53)"
    by (rule not_out_of_range [of _ 53]) simp_all
  then have "float_of_rat (2 ^ 53) = Fin (2 ^ 53)"
    unfolding float_of_rat_def Let_def nd53 by simp
  moreover have "(2 ^ 52 + 2 ^ 52 :: rat) = 2 ^ 53" by simp
  ultimately have a: "py_add (PyFloat (Fin (2 ^ 52))) (PyFloat (Fin (2 ^ 52))) =
      Inr (PyFloat (Fin (2 ^ 53)))"
    unfolding py_add.simps to_float.simps(2) bindE_Inr float_add.simps by (simp only:)
  have "(2 ^ 53 :: rat) \<noteq> of_int (2 ^ 53 + 1)" by simp
  with n s a show ?thesis by (intro conjI)
qed

end
